theory Spec2Isabelle
  imports Complex_Main
begin

section \<open>The search view: data model\<close>

text \<open>
  The thumbnail grid is the class \<open>SearchView\<close>. Its methods are embedded as functions
  that take the view (the fields of \<open>this\<close> that they read or write) and return the
  updated view next to their result. A leading underscore of a method name is dropped
  (\<open>_closeRow\<close> is \<open>closeRow\<close>), since an Isabelle name cannot start with one.

  JavaScript numbers are modelled exactly: indices and page numbers as \<open>int\<close>, pixel
  quantities as \<open>real\<close>. Rounding of doubles is not modelled.
\<close>

type_synonym media_id = string

text \<open>The exceptions the embedded methods throw.\<close>

datatype error =
  DuplicateMediaIds
| TypeError
| MissingMediaInfo media_id
| MissingQuickUserData string
| UnexpectedThumbType string

text \<open>
  A page number as the pagination code computes it: \<open>parseInt\<close> of a missing
  \<open>dataset.searchPage\<close> is \<open>NaN\<close>, and arithmetic on it stays \<open>NaN\<close>.
\<close>

datatype page_num = Page int | NaN

fun page_add :: "page_num \<Rightarrow> int \<Rightarrow> page_num" where
  "page_add (Page p) k = Page (p + k)"
| "page_add NaN k = NaN"

text \<open>The media info fields that the grid reads (\<open>ppixiv.mediaCache.getMediaInfoSync\<close>).\<close>

record media_info =
  pageCount :: int
  info_userId :: string

text \<open>
  The data source, as far as the view consults it. \<open>mediaIdsByPage\<close>,
  \<open>getLowestLoadedPage\<close> and \<open>getHighestLoadedPage\<close> belong to its \<open>idList\<close>.
  The data source itself is not part of the view's source file: its answers are inputs.
\<close>

record data_source =
  ds_name :: string
  initialPage :: int
  allowExpandingMangaPages :: bool
  mediaIdsByPage :: "int \<Rightarrow> media_id list option"
  getLowestLoadedPage :: int
  getHighestLoadedPage :: int
  isPageLoadedOrLoading :: "page_num \<Rightarrow> bool"
  canLoadPage :: "page_num \<Rightarrow> bool"

text \<open>The result of \<open>makeThumbnailSizingStyle\<close>.\<close>

record sizing_style =
  thumbnailStyle :: string
  columns :: int
  padding :: real
  thumbWidth :: real
  thumbHeight :: real
  containerWidth :: real
  desiredPixels :: real

text \<open>
  A thumbnail node created by \<open>createThumb\<close>: its \<open>dataset\<close> entries and its
  laid-out size. The size of a node is what was last written to its \<open>--thumb-width\<close>
  and \<open>--thumb-height\<close> properties.
\<close>

record thumb =
  dataset_id :: media_id
  dataset_searchPage :: "int option"
  dataset_nearby :: bool
  offsetWidth :: real
  offsetHeight :: real

text \<open>A row node: \<open>dataset.open\<close> and its children, first to last.\<close>

record row =
  dataset_open :: bool
  children :: "thumb list"

text \<open>
  What reading a property of \<open>thumbs\<close> gives when it is not \<open>undefined\<close>: a thumbnail
  node stored under the name, or the member of \<open>Object.prototype\<close> of that name.
  \<open>thumbs\<close> is created as \<open>{}\<close>, so it inherits those members.
\<close>

datatype thumbs_value = Thumb thumb | Inherited string

text \<open>
  The fields of the view. \<open>thumbs\<close> is a JavaScript object used as an insertion-ordered
  dictionary, hence an association list of its own properties; its keys are media ids,
  none of which is written like an array index or is \<open>__proto__\<close>, so that each is stored
  as a property of the object and \<open>Object.keys\<close> gives them in the order of insertion. The nodes in \<open>rows\<close> are the nodes in \<open>thumbs\<close>; the row copy
  carries the node's size, the \<open>thumbs\<close> copy its \<open>dataset\<close>. \<open>flashingImage\<close> is the
  value last pulsed, \<open>None\<close> for \<open>null\<close>.
\<close>

record view =
  dataSource :: "data_source option"
  thumbs :: "(media_id \<times> thumb) list"
  rows :: "row list"
  expandedMediaIds :: "media_id \<Rightarrow> bool option"
  mediaIdsExpandedByDefault :: bool
  mediaIdExpandedCache :: "(media_id \<Rightarrow> bool option) option"
  sizingStyle :: "sizing_style option"
  scrollTop :: real
  flashingImage :: "thumbs_value option"

text \<open>
  What the view reads from outside its own file during one call: the media id helpers
  (\<open>helpers.mediaId\<close>), the media cache, the mute list, the platform flag, the sizing
  style that \<open>makeThumbnailSizingStyle\<close> computes from the settings and the container,
  and the layout the browser reports. They are parameters of the model. So are
  \<open>Math.sqrt\<close>, which keeps the definitions computable, and \<open>helpers.math.clamp\<close>.
  The second argument of \<open>getMediaInfoSync\<close> is its option \<open>full\<close>; a call that does
  not give the option is taken to ask for full info. \<open>animations_enabled\<close> is the
  setting of that name. \<open>scrollTop_NaN\<close> is the position the scroller takes, from its
  current one, when \<open>scrollTop\<close> is assigned \<open>NaN\<close>.
\<close>

record env =
  mediaId_parse :: "media_id \<Rightarrow> string \<times> string \<times> nat"
  encodeMediaId :: "string \<times> string \<times> nat \<Rightarrow> media_id"
  getMediaIdFirstPage :: "media_id \<Rightarrow> media_id"
  getMediaInfoSync :: "media_id \<Rightarrow> bool \<Rightarrow> media_info option"
  isMuted :: "media_info \<Rightarrow> bool"
  getQuickUserData :: "string \<Rightarrow> bool"
  getImageDimensions :: "media_info \<Rightarrow> media_id \<Rightarrow> real \<times> real"
  ios :: bool
  math_sqrt :: "real \<Rightarrow> real"
  math_clamp :: "real \<Rightarrow> real \<Rightarrow> real \<Rightarrow> real"
  makeThumbnailSizingStyle :: sizing_style
  scroller_offsetHeight :: real
  row_offsetWidth :: real
  row_offsetTop :: "row list \<Rightarrow> nat \<Rightarrow> real"
  thumb_offsetTop :: "row list \<Rightarrow> media_id \<Rightarrow> real"
  thumb_layoutHeight :: "row list \<Rightarrow> media_id \<Rightarrow> real"
  scroller_scrollHeight :: "row list \<Rightarrow> real"
  animations_enabled :: bool
  scrollTop_NaN :: "real \<Rightarrow> real"

section \<open>Array helpers\<close>

text \<open>\<open>Array.prototype.indexOf\<close>: the first position of the value, or \<open>-1\<close>.
  The argument is \<open>None\<close> for \<open>undefined\<close> or \<open>null\<close>, which no list of ids holds.\<close>

fun index_from :: "'a list \<Rightarrow> 'a \<Rightarrow> int \<Rightarrow> int" where
  "index_from [] x i = -1"
| "index_from (y # ys) x i = (if y = x then i else index_from ys x (i + 1))"

definition indexOf :: "'a list \<Rightarrow> 'a option \<Rightarrow> int" where
  "indexOf xs x = (case x of None \<Rightarrow> -1 | Some a \<Rightarrow> index_from xs a 0)"

text \<open>\<open>Array.prototype.slice(start, end)\<close>, negative arguments counting from the end.\<close>

definition slice :: "'a list \<Rightarrow> int \<Rightarrow> int \<Rightarrow> 'a list" where
  "slice xs s e =
     (let n = int (length xs);
          s' = (if s < 0 then max (n + s) 0 else min s n);
          e' = (if e < 0 then max (n + e) 0 else min e n)
      in take (nat (e' - s')) (drop (nat s') xs))"

text \<open>\<open>xs[0]\<close> and \<open>xs[xs.length-1]\<close>, \<open>undefined\<close> on an empty array.\<close>

definition first_elem :: "'a list \<Rightarrow> 'a option" where
  "first_elem xs = (case xs of [] \<Rightarrow> None | x # _ \<Rightarrow> Some x)"

definition last_elem :: "'a list \<Rightarrow> 'a option" where
  "last_elem xs = (case xs of [] \<Rightarrow> None | _ # _ \<Rightarrow> Some (last xs))"

section \<open>Reading a property of \<open>thumbs\<close>\<close>

text \<open>The names of the members of \<open>Object.prototype\<close>. Each of them is a function,
  \<open>__proto__\<close> the prototype itself: none is \<open>null\<close> or \<open>undefined\<close>.\<close>

definition object_prototype_names :: "string list" where
  "object_prototype_names =
     [''constructor'', ''__defineGetter__'', ''__defineSetter__'', ''hasOwnProperty'',
      ''__lookupGetter__'', ''__lookupSetter__'', ''isPrototypeOf'',
      ''propertyIsEnumerable'', ''toString'', ''valueOf'', ''__proto__'',
      ''toLocaleString'']"

text \<open>\<open>this.thumbs[key]\<close>: the node stored under the key, else the member the object
  inherits under that name, else \<open>undefined\<close>.\<close>

definition thumbs_get :: "(media_id \<times> thumb) list \<Rightarrow> string \<Rightarrow> thumbs_value option" where
  "thumbs_get object key =
     (case map_of object key of
        Some node \<Rightarrow> Some (Thumb node)
      | None \<Rightarrow> if key \<in> set object_prototype_names then Some (Inherited key) else None)"

section \<open>Expansion and the flattened id list\<close>

text \<open>\<open>_isMediaIdExpanded\<close>: the uncached decision.\<close>

definition isMediaIdExpanded_uncached :: "env \<Rightarrow> view \<Rightarrow> media_id \<Rightarrow> bool" where
  "isMediaIdExpanded_uncached e v mediaId =
     (case dataSource v of
        None \<Rightarrow> False
      | Some ds \<Rightarrow>
          if \<not> allowExpandingMangaPages ds then False
          else
            let m = getMediaIdFirstPage e mediaId in
            if fst (mediaId_parse e m) \<noteq> ''illust'' then False
            else
              (case expandedMediaIds v m of
                 Some b \<Rightarrow> b
               | None \<Rightarrow>
                   if \<not> mediaIdsExpandedByDefault v then False
                   else
                     (case getMediaInfoSync e m False of
                        None \<Rightarrow> False
                      | Some info \<Rightarrow>
                          if isMuted e info then False
                          else if pageCount info = 1 then False
                          else True)))"

text \<open>\<open>isMediaIdExpanded\<close>: the cache is created on demand and filled on a miss.\<close>

definition isMediaIdExpanded :: "env \<Rightarrow> media_id \<Rightarrow> view \<Rightarrow> bool \<times> view" where
  "isMediaIdExpanded e mediaId v =
     (let cache = (case mediaIdExpandedCache v of None \<Rightarrow> Map.empty | Some c \<Rightarrow> c) in
      case cache mediaId of
        Some b \<Rightarrow> (b, v\<lparr>mediaIdExpandedCache := Some cache\<rparr>)
      | None \<Rightarrow>
          (let b = isMediaIdExpanded_uncached e v mediaId
           in (b, v\<lparr>mediaIdExpandedCache := Some (cache(mediaId \<mapsto> b))\<rparr>)))"

text \<open>\<open>_getExpandedPages\<close>: the sub-page ids of an expanded multi-page post, or
  \<open>None\<close> for \<open>null\<close>.\<close>

definition getExpandedPages :: "env \<Rightarrow> media_id \<Rightarrow> view \<Rightarrow> media_id list option \<times> view" where
  "getExpandedPages e mediaId v =
     (let (expanded, v1) = isMediaIdExpanded e mediaId v in
      if \<not> expanded then (None, v1)
      else
        (case getMediaInfoSync e mediaId False of
           None \<Rightarrow> (None, v1)
         | Some info \<Rightarrow>
             if pageCount info \<le> 1 then (None, v1)
             else
               (let (type, ident, _) = mediaId_parse e mediaId
                in (Some (map (\<lambda>mangaPage. encodeMediaId e (type, ident, mangaPage))
                            [0 ..< nat (pageCount info)]), v1))))"

text \<open>
  \<open>getDataSourceMediaIds\<close>. The body of the inner loop handles one id of a page; the
  accumulator is \<open>allMediaIds\<close>, \<open>mediaIdPages\<close> and the view (for the cache).
\<close>

type_synonym id_acc = "media_id list \<times> (media_id \<Rightarrow> int option) \<times> view"

definition add_media_id :: "env \<Rightarrow> int \<Rightarrow> media_id \<Rightarrow> id_acc \<Rightarrow> id_acc" where
  "add_media_id e page mediaId acc =
     (case acc of (allMediaIds, mediaIdPages, v) \<Rightarrow>
        (case getExpandedPages e mediaId v of
           (Some mediaIdsOnPage, v1) \<Rightarrow>
             (allMediaIds @ mediaIdsOnPage,
              fold (\<lambda>pageMediaId mp. mp(pageMediaId \<mapsto> page)) mediaIdsOnPage mediaIdPages,
              v1)
         | (None, v1) \<Rightarrow>
             (allMediaIds @ [mediaId], mediaIdPages(mediaId \<mapsto> page), v1)))"

text \<open>What the inner loop appends to \<open>allMediaIds\<close> for one id of a page: its
  sub-page ids if \<open>_getExpandedPages\<close> returns them, else the id itself.\<close>

definition flattened_item :: "env \<Rightarrow> view \<Rightarrow> media_id \<Rightarrow> media_id list" where
  "flattened_item e v mediaId =
     (case fst (getExpandedPages e mediaId v) of
        Some mediaIdsOnPage \<Rightarrow> mediaIdsOnPage
      | None \<Rightarrow> [mediaId])"

text \<open>The outer loop over the pages; iterating a page that is missing from
  \<open>mediaIdsByPage\<close> throws. The view comes back also then: the cache keeps what the
  pages before have written.\<close>

fun add_pages :: "env \<Rightarrow> data_source \<Rightarrow> int list \<Rightarrow> id_acc \<Rightarrow> (error + unit) \<times> id_acc" where
  "add_pages e ds [] acc = (Inr (), acc)"
| "add_pages e ds (page # pages) acc =
     (case mediaIdsByPage ds page of
        None \<Rightarrow> (Inl TypeError, acc)
      | Some mediaIdsOnPage \<Rightarrow>
          add_pages e ds pages (fold (add_media_id e page) mediaIdsOnPage acc))"

text \<open>The size of \<open>new Set(allMediaIds)\<close> is the length of the list without its
  repetitions.\<close>

definition getDataSourceMediaIds ::
  "env \<Rightarrow> view \<Rightarrow> (error + media_id list \<times> (media_id \<Rightarrow> int option)) \<times> view" where
  "getDataSourceMediaIds e v =
     (case dataSource v of
        None \<Rightarrow> (Inr ([], Map.empty), v)
      | Some ds \<Rightarrow>
          (case add_pages e ds [getLowestLoadedPage ds .. getHighestLoadedPage ds]
                  ([], Map.empty, v) of
             (Inl err, (allMediaIds, mediaIdPages, v1)) \<Rightarrow> (Inl err, v1)
           | (Inr _, (allMediaIds, mediaIdPages, v1)) \<Rightarrow>
               if length allMediaIds \<noteq> length (remdups allMediaIds)
               then (Inl DuplicateMediaIds, v1)
               else (Inr (allMediaIds, mediaIdPages), v1)))"

section \<open>Choosing the window\<close>

text \<open>\<open>getLoadedThumbs\<close>: the nodes in \<open>thumbs\<close>, in order.\<close>

definition getLoadedThumbs :: "view \<Rightarrow> thumb list" where
  "getLoadedThumbs v = map snd (thumbs v)"

text \<open>\<open>getLoadedMediaIds\<close>: the first and the last key of \<open>thumbs\<close>.\<close>

definition getLoadedMediaIds :: "view \<Rightarrow> media_id option \<times> media_id option" where
  "getLoadedMediaIds v =
     (let mediaIds = map fst (thumbs v) in (first_elem mediaIds, last_elem mediaIds))"

text \<open>\<open>getNearbyMediaIds\<close> with \<open>all\<close> left false: the first and the last key whose
  node has \<open>dataset.nearby\<close> set.\<close>

definition getNearbyMediaIds :: "view \<Rightarrow> media_id option \<times> media_id option" where
  "getNearbyMediaIds v =
     (let mediaIds = map fst (filter (\<lambda>(mediaId, element). dataset_nearby element) (thumbs v))
      in (first_elem mediaIds, last_elem mediaIds))"

text \<open>
  The \<open>while(1)\<close> loop at the end of \<open>getMediaIdsToDisplay\<close>, for a list of
  \<open>len\<close> ids. Each round that does not break widens the range by at least one index, so
  the loop ends for every input.
\<close>

function expand_outwards :: "int \<Rightarrow> real \<Rightarrow> real \<Rightarrow> int \<Rightarrow> int \<Rightarrow> int \<times> int" where
  "expand_outwards len desired viewPixels startIdx endIdx =
     (let totalThumbs = (endIdx - startIdx) + 1 in
      if totalThumbs \<ge> len then (startIdx, endIdx)
      else if real_of_int totalThumbs * desired \<ge> viewPixels then (startIdx, endIdx)
      else expand_outwards len desired viewPixels
             (if startIdx > 0 then startIdx - 1 else startIdx)
             (if endIdx + 1 < len then endIdx + 1 else endIdx))"
  by pat_completeness auto
termination
  by (relation "measure (\<lambda>(len, desired, viewPixels, startIdx, endIdx).
                   nat (len - ((endIdx - startIdx) + 1)))") auto

declare expand_outwards.simps [simp del]

text \<open>
  The first part of \<open>getMediaIdsToDisplay\<close>, for a list that is not empty: the range
  before it is clamped. A target id counts only if it is truthy: neither \<open>null\<close> nor
  the empty string.
\<close>

definition seed_range :: "env \<Rightarrow> view \<Rightarrow> media_id list \<Rightarrow> media_id option \<Rightarrow> int \<times> int" where
  "seed_range e v allMediaIds targetMediaId =
     (let targetMediaIdIdx = indexOf allMediaIds targetMediaId
      in if targetMediaId \<noteq> None \<and> targetMediaId \<noteq> Some []
            \<and> thumbs_get (thumbs v) (the targetMediaId) = None \<and> targetMediaIdIdx \<noteq> -1
         then (targetMediaIdIdx, targetMediaIdIdx)
         else
           let (firstLoadedMediaId, lastLoadedMediaId) = getLoadedMediaIds v;
               firstLoadedMediaIdIdx = indexOf allMediaIds firstLoadedMediaId;
               lastLoadedMediaIdIdx = indexOf allMediaIds lastLoadedMediaId;
               (startIdx, endIdx) =
                 (if firstLoadedMediaIdIdx \<noteq> -1 \<and> lastLoadedMediaIdIdx \<noteq> -1
                  then (firstLoadedMediaIdIdx, lastLoadedMediaIdIdx)
                  else (0, 0));
               chunkSizeForwards = 25;
               (firstNearbyMediaId, lastNearbyMediaId) = getNearbyMediaIds v;
               lastNearbyMediaIdIdx = indexOf allMediaIds lastNearbyMediaId;
               endIdx = (if lastNearbyMediaIdIdx \<noteq> -1
                            \<and> lastNearbyMediaIdIdx = lastLoadedMediaIdIdx
                         then endIdx + chunkSizeForwards else endIdx);
               chunkSizeBackwards = (if ios e then 100 else 25);
               firstNearbyMediaIdIdx = indexOf allMediaIds firstNearbyMediaId;
               startIdx = (if firstNearbyMediaIdIdx \<noteq> -1
                              \<and> firstNearbyMediaIdIdx = firstLoadedMediaIdIdx
                           then startIdx - chunkSizeBackwards else startIdx)
           in (startIdx, endIdx))"

text \<open>
  \<open>getMediaIdsToDisplay\<close>: the range is seeded, clamped and widened. The sizing style
  is \<open>this.sizingStyle\<close>, which \<open>refreshImages\<close> has assigned before the call.
\<close>

definition getMediaIdsToDisplay ::
  "env \<Rightarrow> sizing_style \<Rightarrow> view \<Rightarrow> media_id list \<Rightarrow> media_id option \<Rightarrow> int \<times> int" where
  "getMediaIdsToDisplay e sz v allMediaIds targetMediaId =
     (if length allMediaIds = 0 then (0, 0)
      else
        let (startIdx, endIdx) = seed_range e v allMediaIds targetMediaId;
            startIdx = max startIdx 0;
            endIdx = min endIdx (int (length allMediaIds) - 1);
            endIdx = max startIdx endIdx;
            viewPixels = containerWidth sz * scroller_offsetHeight e;
            viewPixels = viewPixels * 2
        in expand_outwards (int (length allMediaIds)) (desiredPixels sz) viewPixels
             startIdx endIdx)"

section \<open>Rows\<close>

text \<open>
  The browser's \<open>scrollWidth\<close> of a row: the width of its content, the children side by
  side with the flex gap \<open>padding\<close> between neighbours, but never less than the row's own
  width. The row's own width \<open>offsetWidth\<close> is \<open>row_offsetWidth\<close> of the environment.
\<close>

definition row_contentWidth :: "sizing_style \<Rightarrow> thumb list \<Rightarrow> real" where
  "row_contentWidth sz ts =
     (if ts = [] then 0
      else sum_list (map offsetWidth ts) + padding sz * (real (length ts) - 1))"

definition row_scrollWidth :: "env \<Rightarrow> sizing_style \<Rightarrow> thumb list \<Rightarrow> real" where
  "row_scrollWidth e sz ts = max (row_offsetWidth e) (row_contentWidth sz ts)"

text \<open>\<open>_getOpenRow\<close>: the position of the row to add to, in the updated view.\<close>

definition getOpenRow :: "bool \<Rightarrow> view \<Rightarrow> nat \<times> view" where
  "getOpenRow atEnd v =
     (let row = (if atEnd then last_elem (rows v) else first_elem (rows v));
          idx = (if atEnd then length (rows v) - 1 else 0)
      in case row of
           Some r \<Rightarrow>
             if dataset_open r then (idx, v)
             else if atEnd
               then (length (rows v), v\<lparr>rows := rows v @ [\<lparr>dataset_open = True, children = []\<rparr>]\<rparr>)
               else (0, v\<lparr>rows := \<lparr>dataset_open = True, children = []\<rparr> # rows v\<rparr>)
         | None \<Rightarrow>
             if atEnd
               then (length (rows v), v\<lparr>rows := rows v @ [\<lparr>dataset_open = True, children = []\<rparr>]\<rparr>)
               else (0, v\<lparr>rows := \<lparr>dataset_open = True, children = []\<rparr> # rows v\<rparr>))"

text \<open>The height of the tallest child of a row, starting from 0; \<open>_closeRow\<close>
  computes it in its first and in its second pass.\<close>

definition maxHeight_of :: "thumb list \<Rightarrow> real" where
  "maxHeight_of ts = fold (\<lambda>thumb maxHeight. max maxHeight (offsetHeight thumb)) ts 0"

definition scale_thumb :: "real \<Rightarrow> thumb \<Rightarrow> thumb" where
  "scale_thumb k t = t\<lparr>offsetWidth := offsetWidth t * k, offsetHeight := offsetHeight t * k\<rparr>"

text \<open>The first pass of \<open>_closeRow\<close>, one round of its outer loop: child \<open>i\<close> grows
  toward the tallest height, as far as the unused width of the row allows.\<close>

definition expand_child :: "env \<Rightarrow> sizing_style \<Rightarrow> nat \<Rightarrow> thumb list \<Rightarrow> thumb list" where
  "expand_child e sz i ts =
     (let thumbToExpand = ts ! i;
          maxHeight = maxHeight_of ts;
          availWidth = row_offsetWidth e;
          availWidth = availWidth - padding sz * (real (length ts) - 1);
          availWidth = fold (\<lambda>thumb a. a - offsetWidth thumb) ts availWidth;
          maxWidth = offsetWidth thumbToExpand + availWidth;
          expandBy = min (maxHeight / offsetHeight thumbToExpand)
                         (maxWidth / offsetWidth thumbToExpand)
      in ts[i := scale_thumb expandBy thumbToExpand])"

definition expand_pass :: "env \<Rightarrow> sizing_style \<Rightarrow> thumb list \<Rightarrow> thumb list" where
  "expand_pass e sz ts = fold (expand_child e sz) [0 ..< length ts] ts"

text \<open>The second pass: every child is scaled to the tallest height.\<close>

definition equalize_pass :: "thumb list \<Rightarrow> thumb list" where
  "equalize_pass ts =
     (let maxHeight = maxHeight_of ts
      in map (\<lambda>thumb. scale_thumb (maxHeight / offsetHeight thumb) thumb) ts)"

text \<open>The third pass: the whole row is scaled by the row width over the width of its
  children plus the gaps.\<close>

definition fill_pass :: "env \<Rightarrow> sizing_style \<Rightarrow> thumb list \<Rightarrow> thumb list" where
  "fill_pass e sz ts =
     (let width = 0;
          width = width + padding sz * (real (length ts) - 1);
          width = fold (\<lambda>thumb w. w + offsetWidth thumb) ts width;
          expandBy = row_offsetWidth e / width
      in map (scale_thumb expandBy) ts)"

text \<open>\<open>_closeRow\<close>.\<close>

definition closeRow :: "env \<Rightarrow> sizing_style \<Rightarrow> row \<Rightarrow> row" where
  "closeRow e sz r =
     (if \<not> dataset_open r then r
      else r\<lparr>dataset_open := False,
             children := fill_pass e sz (equalize_pass (expand_pass e sz (children r)))\<rparr>)"

text \<open>\<open>insertAdjacentElement\<close> of a node into a row, at its end or at its start.\<close>

definition insert_node :: "bool \<Rightarrow> thumb \<Rightarrow> row \<Rightarrow> row" where
  "insert_node atEnd node r =
     r\<lparr>children := (if atEnd then children r @ [node] else node # children r)\<rparr>"

text \<open>\<open>_addThumbToRow\<close>.\<close>

definition addThumbToRow :: "env \<Rightarrow> sizing_style \<Rightarrow> thumb \<Rightarrow> bool \<Rightarrow> view \<Rightarrow> view" where
  "addThumbToRow e sz node atEnd v =
     (let (i, v1) = getOpenRow atEnd v;
          addToRow = rows v1 ! i;
          added = insert_node atEnd node addToRow
      in if row_scrollWidth e sz (children added) \<le> row_offsetWidth e
         then v1\<lparr>rows := (rows v1)[i := added]\<rparr>
         else
           (let v2 = v1\<lparr>rows := (rows v1)[i := closeRow e sz addToRow]\<rparr>;
                (j, v3) = getOpenRow atEnd v2;
                newRow = rows v3 ! j
            in v3\<lparr>rows := (rows v3)[j := insert_node atEnd node newRow]\<rparr>))"

text \<open>\<open>_clearThumbs\<close>.\<close>

definition clearThumbs :: "view \<Rightarrow> view" where
  "clearThumbs v = v\<lparr>thumbs := [], rows := []\<rparr>"

section \<open>Creating thumbnails\<close>

text \<open>\<open>Math.round\<close>.\<close>

definition js_round :: "real \<Rightarrow> real" where
  "js_round x = real_of_int \<lfloor>x + 1 / 2\<rfloor>"

text \<open>\<open>_thumbnailSize\<close>: the size of a new thumbnail, or the exception for missing
  media info.\<close>

definition thumbnailSize :: "env \<Rightarrow> sizing_style \<Rightarrow> view \<Rightarrow> media_id \<Rightarrow> error + real \<times> real" where
  "thumbnailSize e sz v mediaId =
     (let type = fst (mediaId_parse e mediaId);
          isManga = (case dataSource v of None \<Rightarrow> False | Some ds \<Rightarrow> ds_name ds = ''manga'')
      in if type \<noteq> ''illust'' \<and> type \<noteq> ''file'' \<and> type \<noteq> ''folder''
         then Inr (thumbWidth sz, thumbHeight sz)
         else if \<not> isManga \<and> thumbnailStyle sz = ''square''
         then Inr (thumbWidth sz, thumbHeight sz)
         else
           (case getMediaInfoSync e mediaId isManga of
              None \<Rightarrow> Inl (MissingMediaInfo mediaId)
            | Some mediaInfo \<Rightarrow>
                (let (width, height) = getImageDimensions e mediaInfo mediaId;
                     aspectRatio = width / height;
                     w = math_sqrt e (desiredPixels sz * aspectRatio);
                     h = w / aspectRatio
                 in Inr (js_round w, js_round h))))"

text \<open>
  \<open>setupThumb\<close> for a node whose id is set: the size from \<open>_setThumbnailSize\<close>, the
  exceptions, and the call of \<open>isMediaIdExpanded\<close> that \<open>refreshExpandedThumb\<close> makes.
  What it writes into the node besides the size (links, labels, icons) is not modelled.
\<close>

definition setupThumb :: "env \<Rightarrow> sizing_style \<Rightarrow> thumb \<Rightarrow> view \<Rightarrow> (error + thumb) \<times> view" where
  "setupThumb e sz element v =
     (let mediaId = dataset_id element;
          (thumbType, thumbId, page) = mediaId_parse e mediaId
      in case thumbnailSize e sz v mediaId of
           Inl err \<Rightarrow> (Inl err, v)
         | Inr (w, h) \<Rightarrow>
             (let element = element\<lparr>offsetWidth := w, offsetHeight := h\<rparr>
              in if thumbType = ''user'' \<or> thumbType = ''bookmarks''
                 then (if \<not> getQuickUserData e thumbId
                       then (Inl (MissingQuickUserData thumbId), v)
                       else (Inr element, v))
                 else if thumbType \<noteq> ''illust'' \<and> thumbType \<noteq> ''file'' \<and> thumbType \<noteq> ''folder''
                 then (Inl (UnexpectedThumbType thumbType), v)
                 else
                   (case getMediaInfoSync e mediaId False of
                      None \<Rightarrow> (Inl (MissingMediaInfo mediaId), v)
                    | Some info \<Rightarrow>
                        (case dataSource v of
                           None \<Rightarrow> (Inr element, v)
                         | Some ds \<Rightarrow>
                             if allowExpandingMangaPages ds
                             then (Inr element, snd (isMediaIdExpanded e mediaId v))
                             else (Inr element, v)))))"

text \<open>\<open>createThumb\<close>: a fresh node, not nearby until the observer says so.\<close>

definition createThumb ::
  "env \<Rightarrow> sizing_style \<Rightarrow> media_id \<Rightarrow> int option \<Rightarrow> view \<Rightarrow> (error + thumb) \<times> view" where
  "createThumb e sz mediaId searchPage v =
     setupThumb e sz
       \<lparr>dataset_id = mediaId, dataset_searchPage = searchPage, dataset_nearby = False,
        offsetWidth = 0, offsetHeight = 0\<rparr> v"

text \<open>
  Modelled from the spec: \<open>helpers.other.addToEnd\<close> and \<open>addToBeginning\<close> are not in
  the view's file. The reconciler appends and prepends ids to the materialized sequence:
  the key goes to the end or to the start of the ordered dictionary, and a key that is
  already there moves.
\<close>

definition addToEnd :: "('k \<times> 'v) list \<Rightarrow> 'k \<Rightarrow> 'v \<Rightarrow> ('k \<times> 'v) list" where
  "addToEnd object key val = filter (\<lambda>(k, _). k \<noteq> key) object @ [(key, val)]"

definition addToBeginning :: "('k \<times> 'v) list \<Rightarrow> 'k \<Rightarrow> 'v \<Rightarrow> ('k \<times> 'v) list" where
  "addToBeginning object key val = (key, val) # filter (\<lambda>(k, _). k \<noteq> key) object"

section \<open>Scroll position\<close>

text \<open>The record \<open>saveScrollPosition\<close> returns.\<close>

record scroll_position =
  savedScroll :: real
  scroll_mediaId :: media_id

text \<open>\<open>getThumbnailForMediaId\<close>.\<close>

definition getThumbnailForMediaId ::
  "env \<Rightarrow> view \<Rightarrow> media_id \<Rightarrow> bool \<Rightarrow> thumbs_value option" where
  "getThumbnailForMediaId e v mediaId fallbackOnPage1 =
     (case thumbs_get (thumbs v) mediaId of
        Some node \<Rightarrow> Some node
      | None \<Rightarrow>
          if fallbackOnPage1
          then (let page1MediaId = getMediaIdFirstPage e mediaId
                in if page1MediaId \<noteq> mediaId then thumbs_get (thumbs v) page1MediaId
                   else None)
          else None)"

text \<open>\<open>getFirstFullyOnscreenThumb\<close>: the first child of the row whose top is closest to
  a quarter of the way down the scroller.\<close>

definition getFirstFullyOnscreenThumb :: "env \<Rightarrow> view \<Rightarrow> thumb option" where
  "getFirstFullyOnscreenThumb e v =
     (let screenTop = scrollTop v + scroller_offsetHeight e / 4;
          (bestDistance, centerRow) =
            fold (\<lambda>i (bestDistance, centerRow).
                    let rowTop = row_offsetTop e (rows v) i;
                        distance = \<bar>rowTop - screenTop\<bar>
                    in if distance < \<bar>bestDistance\<bar> then (distance, Some (rows v ! i))
                       else (bestDistance, centerRow))
                 [0 ..< length (rows v)] (999999, None)
      in case centerRow of
           None \<Rightarrow> None
         | Some r \<Rightarrow> first_elem (children r))"

text \<open>Modelled from the spec: \<open>helpers.html.saveScrollPosition\<close> records the element's
  offset relative to the current scroll position.\<close>

definition html_saveScrollPosition :: "real \<Rightarrow> real \<Rightarrow> real" where
  "html_saveScrollPosition scrollerTop nodeTop = nodeTop - scrollerTop"

text \<open>Modelled from the spec: \<open>helpers.html.restoreScrollPosition\<close> sets the scroll
  position to the element's position minus the saved offset.\<close>

definition html_restoreScrollPosition :: "real \<Rightarrow> real \<Rightarrow> real" where
  "html_restoreScrollPosition nodeTop saved = nodeTop - saved"

text \<open>\<open>saveScrollPosition\<close>.\<close>

definition saveScrollPosition :: "env \<Rightarrow> view \<Rightarrow> scroll_position option" where
  "saveScrollPosition e v =
     (case getFirstFullyOnscreenThumb e v of
        None \<Rightarrow> None
      | Some firstVisibleThumbNode \<Rightarrow>
          Some \<lparr>savedScroll =
                  html_saveScrollPosition (scrollTop v)
                    (thumb_offsetTop e (rows v) (dataset_id firstVisibleThumbNode)),
                scroll_mediaId = dataset_id firstVisibleThumbNode\<rparr>)"

text \<open>\<open>restoreScrollPosition\<close>. An inherited member is no element: it has no position,
  and the scroll position computed from it is \<open>NaN\<close>.\<close>

definition restoreScrollPosition :: "env \<Rightarrow> scroll_position option \<Rightarrow> view \<Rightarrow> bool \<times> view" where
  "restoreScrollPosition e scroll v =
     (case scroll of
        None \<Rightarrow> (False, v)
      | Some sc \<Rightarrow>
          (case getThumbnailForMediaId e v (scroll_mediaId sc) False of
             None \<Rightarrow> (False, v)
           | Some (Thumb restoreScrollPositionNode) \<Rightarrow>
               (True,
                v\<lparr>scrollTop :=
                    html_restoreScrollPosition
                      (thumb_offsetTop e (rows v) (dataset_id restoreScrollPositionNode))
                      (savedScroll sc)\<rparr>)
           | Some (Inherited name) \<Rightarrow>
               (True, v\<lparr>scrollTop := scrollTop_NaN e (scrollTop v)\<rparr>)))"

section \<open>Refreshing the grid\<close>

text \<open>The two \<open>for\<close> statements of \<open>refreshImages\<close> that create thumbnails, over the
  ids they visit in order. An exception of \<open>createThumb\<close> ends the loop.\<close>

fun addThumbsToEnd ::
  "env \<Rightarrow> sizing_style \<Rightarrow> (media_id \<Rightarrow> int option) \<Rightarrow> media_id list \<Rightarrow> view \<Rightarrow> (error + unit) \<times> view" where
  "addThumbsToEnd e sz mediaIdPages [] v = (Inr (), v)"
| "addThumbsToEnd e sz mediaIdPages (mediaId # rest) v =
     (let searchPage = mediaIdPages mediaId in
      case createThumb e sz mediaId searchPage v of
        (Inl err, v1) \<Rightarrow> (Inl err, v1)
      | (Inr node, v1) \<Rightarrow>
          addThumbsToEnd e sz mediaIdPages rest
            (addThumbToRow e sz node True (v1\<lparr>thumbs := addToEnd (thumbs v1) mediaId node\<rparr>)))"

fun addThumbsToBeginning ::
  "env \<Rightarrow> sizing_style \<Rightarrow> (media_id \<Rightarrow> int option) \<Rightarrow> media_id list \<Rightarrow> view \<Rightarrow> (error + unit) \<times> view" where
  "addThumbsToBeginning e sz mediaIdPages [] v = (Inr (), v)"
| "addThumbsToBeginning e sz mediaIdPages (mediaId # rest) v =
     (let searchPage = mediaIdPages mediaId in
      case createThumb e sz mediaId searchPage v of
        (Inl err, v1) \<Rightarrow> (Inl err, v1)
      | (Inr node, v1) \<Rightarrow>
          addThumbsToBeginning e sz mediaIdPages rest
            (addThumbToRow e sz node False
               (v1\<lparr>thumbs := addToBeginning (thumbs v1) mediaId node\<rparr>)))"

text \<open>
  The decision between an incremental update and a full refresh, with the clearing it
  implies: the positions \<open>lastExistingIdx\<close> and \<open>firstExistingIdx\<close> from which the
  two \<open>for\<close> statements start, whether the update is incremental, and the view.
\<close>

definition existing_range ::
  "media_id list \<Rightarrow> media_id option \<Rightarrow> view \<Rightarrow> (int \<times> int \<times> bool) \<times> view" where
  "existing_range mediaIds targetMediaId v =
     (let currentMediaIds = map fst (thumbs v);
          firstExistingIdx = indexOf mediaIds (first_elem currentMediaIds);
          lastExistingIdx = indexOf mediaIds (last_elem currentMediaIds);
          incrementalUpdate =
            (if firstExistingIdx \<noteq> -1 \<and> lastExistingIdx \<noteq> -1
             then slice mediaIds firstExistingIdx (lastExistingIdx + 1) = currentMediaIds
             else False)
      in if \<not> incrementalUpdate
         then
           (let v1 = clearThumbs v;
                restoreIdx = indexOf mediaIds targetMediaId
            in if restoreIdx \<noteq> -1 then ((restoreIdx - 1, restoreIdx, False), v1)
               else ((-1, 0, False), v1))
         else ((lastExistingIdx, firstExistingIdx, True), v))"

text \<open>\<open>refreshImages\<close>, with its parameters \<open>targetMediaId\<close> and \<open>purge\<close>. The view comes
  back with the result, also when the call throws.\<close>

definition refreshImages ::
  "env \<Rightarrow> media_id option \<Rightarrow> bool \<Rightarrow> view \<Rightarrow> (error + unit) \<times> view" where
  "refreshImages e targetMediaId purge v =
     (case dataSource v of
        None \<Rightarrow> (Inr (), v)
      | Some ds \<Rightarrow>
          let oldSizingStyle = sizingStyle v;
              sz = makeThumbnailSizingStyle e;
              v = v\<lparr>sizingStyle := Some sz\<rparr>;
              savedScroll = saveScrollPosition e v;
              purge = (purge \<or> (oldSizingStyle \<noteq> None \<and> oldSizingStyle \<noteq> Some sz));
              targetMediaId =
                (if purge \<and> targetMediaId = None then map_option scroll_mediaId savedScroll
                 else targetMediaId);
              v = (if purge then clearThumbs v else v)
          in case getDataSourceMediaIds e v of
               (Inl err, v) \<Rightarrow> (Inl err, v)
             | (Inr (allMediaIds, mediaIdPages), v) \<Rightarrow>
                 let targetMediaId =
                       (if targetMediaId \<noteq> None \<and> indexOf allMediaIds targetMediaId = -1
                        then map_option (getMediaIdFirstPage e) targetMediaId
                        else targetMediaId);
                     (startIdx, endIdx) = getMediaIdsToDisplay e sz v allMediaIds targetMediaId;
                     mediaIds = slice allMediaIds startIdx (endIdx + 1);
                     ((lastExistingIdx, firstExistingIdx, incrementalUpdate), v) =
                       existing_range mediaIds targetMediaId v
                 in case addThumbsToEnd e sz mediaIdPages
                           (map (\<lambda>idx. mediaIds ! nat idx)
                                [lastExistingIdx + 1 .. int (length mediaIds) - 1]) v of
                      (Inl err, v) \<Rightarrow> (Inl err, v)
                    | (Inr _, v) \<Rightarrow>
                        (case addThumbsToBeginning e sz mediaIdPages
                                (map (\<lambda>idx. mediaIds ! nat idx) (rev [0 .. firstExistingIdx - 1]))
                                v of
                           (Inl err, v) \<Rightarrow> (Inl err, v)
                         | (Inr _, v) \<Rightarrow> (Inr (), snd (restoreScrollPosition e savedScroll v))))"

section \<open>Scrolling to an id and loading pages\<close>





text \<open>\<open>parseInt\<close> of \<open>dataset.searchPage\<close>.\<close>

definition parseInt_searchPage :: "thumb \<Rightarrow> page_num" where
  "parseInt_searchPage t = (case dataset_searchPage t of None \<Rightarrow> NaN | Some p \<Rightarrow> Page p)"

text \<open>\<open>_dataSourcePageToLoad\<close>: the page to load next, \<open>None\<close> for \<open>null\<close>. Asking a
  missing data source whether a page can be loaded throws.\<close>

definition dataSourcePageToLoad :: "view \<Rightarrow> error + page_num option" where
  "dataSourcePageToLoad v =
     (if (case dataSource v of
            None \<Rightarrow> False
          | Some ds \<Rightarrow> \<not> isPageLoadedOrLoading ds (Page (initialPage ds)))
      then Inr (map_option (\<lambda>ds. Page (initialPage ds)) (dataSource v))
      else
        let thumbs = getLoadedThumbs v in
        if length thumbs = 0 then Inr None
        else
          let lastThumb = last thumbs;
              firstThumb = hd thumbs
          in case dataSource v of
               None \<Rightarrow>
                 if dataset_nearby lastThumb \<or> dataset_nearby firstThumb then Inl TypeError
                 else Inr None
             | Some ds \<Rightarrow>
                 if dataset_nearby lastThumb
                    \<and> canLoadPage ds (page_add (parseInt_searchPage lastThumb) 1)
                    \<and> \<not> isPageLoadedOrLoading ds (page_add (parseInt_searchPage lastThumb) 1)
                 then Inr (Some (page_add (parseInt_searchPage lastThumb) 1))
                 else if dataset_nearby firstThumb
                    \<and> \<not> isPageLoadedOrLoading ds (page_add (parseInt_searchPage firstThumb) (-1))
                 then Inr (Some (page_add (parseInt_searchPage firstThumb) (-1)))
                 else Inr None)"

text \<open>
  \<open>loadDataSourcePage\<close> and the start of \<open>_loadDataSourcePageInner\<close>, up to its
  \<open>await\<close> of \<open>dataSource.loadPage\<close>. The loader is the view with the state of
  \<open>_loadPageRunner\<close> and the pages that were handed to \<open>dataSource.loadPage\<close>, oldest
  first. While a call is running, another call returns the promise of the running one
  and starts nothing. A call that finds no page to load, or that throws, is over at once
  and leaves the runner idle.
\<close>

record loader =
  loader_view :: view
  isRunning :: bool
  loadPageCalls :: "page_num list"

definition loadDataSourcePage :: "loader \<Rightarrow> loader" where
  "loadDataSourcePage l =
     (if isRunning l then l
      else
        (case dataSourcePageToLoad (loader_view l) of
           Inl err \<Rightarrow> l
         | Inr None \<Rightarrow> l
         | Inr (Some loadPage) \<Rightarrow>
             l\<lparr>isRunning := True, loadPageCalls := loadPageCalls l @ [loadPage]\<rparr>))"

text \<open>The callback of the nearby observer: it sets \<open>dataset.nearby\<close> of the observed
  thumbnails, refreshes the grid and asks for a page.\<close>

definition set_nearby :: "(media_id \<Rightarrow> bool option) \<Rightarrow> view \<Rightarrow> view" where
  "set_nearby entries v =
     v\<lparr>thumbs := map (\<lambda>(mediaId, element).
                       (mediaId,
                        case entries mediaId of
                          None \<Rightarrow> element
                        | Some isIntersecting \<Rightarrow> element\<lparr>dataset_nearby := isIntersecting\<rparr>))
                    (thumbs v)\<rparr>"

definition nearby_observer :: "env \<Rightarrow> (media_id \<Rightarrow> bool option) \<Rightarrow> loader \<Rightarrow> (error + unit) \<times> loader" where
  "nearby_observer e entries l =
     (case refreshImages e None False (set_nearby entries (loader_view l)) of
        (Inl err, v1) \<Rightarrow> (Inl err, l\<lparr>loader_view := v1\<rparr>)
      | (Inr _, v1) \<Rightarrow> (Inr (), loadDataSourcePage (l\<lparr>loader_view := v1\<rparr>)))"

section \<open>A concrete search\<close>

text \<open>
  A small environment on which the definitions can be run: media ids written
  \<open>type:id-page\<close>, a post \<open>illust:2-0\<close> of three pages and single-page posts otherwise,
  square thumbnails of 300 pixels with a gap of 10 in a container 1000 wide, and a scroller
  800 high.
\<close>

definition example_parse :: "media_id \<Rightarrow> string \<times> string \<times> nat" where
  "example_parse m =
     (let type = takeWhile (\<lambda>c. c \<noteq> CHR '':'') m;
          rest = drop 1 (dropWhile (\<lambda>c. c \<noteq> CHR '':'') m);
          ident = takeWhile (\<lambda>c. c \<noteq> CHR ''-'') rest;
          page = drop 1 (dropWhile (\<lambda>c. c \<noteq> CHR ''-'') rest)
      in (type, ident, if page = ''1'' then 1 else if page = ''2'' then 2 else 0))"

definition example_encode :: "string \<times> string \<times> nat \<Rightarrow> media_id" where
  "example_encode x =
     (case x of (type, ident, page) \<Rightarrow>
        type @ '':'' @ ident @ ''-''
          @ (if page = 0 then ''0'' else if page = 1 then ''1'' else ''2''))"

definition example_sizing :: sizing_style where
  "example_sizing =
     \<lparr>thumbnailStyle = ''square'', columns = 3, padding = 10, thumbWidth = 300,
      thumbHeight = 300, containerWidth = 1000, desiredPixels = 90000\<rparr>"

definition example_env :: env where
  "example_env =
     \<lparr>mediaId_parse = example_parse,
      encodeMediaId = example_encode,
      getMediaIdFirstPage =
        (\<lambda>m. case example_parse m of (type, ident, page) \<Rightarrow> example_encode (type, ident, 0)),
      getMediaInfoSync =
        (\<lambda>m full. Some \<lparr>pageCount = (if m = ''illust:2-0'' then 3 else 1),
                          info_userId = ''7''\<rparr>),
      isMuted = (\<lambda>info. False),
      getQuickUserData = (\<lambda>u. True),
      getImageDimensions = (\<lambda>info m. (300, 300)),
      ios = False,
      math_sqrt = (\<lambda>x. if x = 90000 then 300 else 0),
      math_clamp = (\<lambda>x lo hi. min (max x lo) hi),
      makeThumbnailSizingStyle = example_sizing,
      scroller_offsetHeight = 800,
      row_offsetWidth = 1000,
      row_offsetTop = (\<lambda>rs i. 310 * real i),
      thumb_offsetTop = (\<lambda>rs m. 0),
      thumb_layoutHeight = (\<lambda>rs m. 300),
      scroller_scrollHeight = (\<lambda>rs. 310 * real (length rs)),
      animations_enabled = True,
      scrollTop_NaN = (\<lambda>y. 0)\<rparr>"

text \<open>A data source that has loaded its first page, with the given ids on it.\<close>

definition example_source :: "media_id list \<Rightarrow> data_source" where
  "example_source ids =
     \<lparr>ds_name = ''search'', initialPage = 1, allowExpandingMangaPages = True,
      mediaIdsByPage = (\<lambda>p. if p = 1 then Some ids else None),
      getLowestLoadedPage = 1, getHighestLoadedPage = 1,
      isPageLoadedOrLoading = (\<lambda>p. p = Page 1),
      canLoadPage = (\<lambda>p. case p of Page n \<Rightarrow> 1 \<le> n | NaN \<Rightarrow> False)\<rparr>"

text \<open>The view right after the data source is set: nothing materialized yet.\<close>

definition example_view :: "data_source \<Rightarrow> view" where
  "example_view ds =
     \<lparr>dataSource = Some ds, thumbs = [], rows = [],
      expandedMediaIds = Map.empty, mediaIdsExpandedByDefault = True,
      mediaIdExpandedCache = None, sizingStyle = None, scrollTop = 0,
      flashingImage = None\<rparr>"

text \<open>A 300 by 300 thumbnail of the first page of the data source.\<close>

definition example_thumb :: "media_id \<Rightarrow> bool \<Rightarrow> thumb" where
  "example_thumb m near =
     \<lparr>dataset_id = m, dataset_searchPage = Some 1, dataset_nearby = near,
      offsetWidth = 300, offsetHeight = 300\<rparr>"

section \<open>Auxiliary notions for the proofs\<close>

text \<open>Two views differ at most in the cache of \<open>isMediaIdExpanded\<close>.\<close>

definition cache_only :: "view \<Rightarrow> view \<Rightarrow> bool" where
  "cache_only v v' \<longleftrightarrow> (\<exists>c. v' = v\<lparr>mediaIdExpandedCache := c\<rparr>)"

text \<open>A view with its thumbnails, rows and sizing style replaced: what \<open>refreshImages\<close>
  has done to the view when it reads the data source.\<close>

definition with_layout ::
  "(media_id \<times> thumb) list \<Rightarrow> row list \<Rightarrow> sizing_style option \<Rightarrow> view \<Rightarrow> view" where
  "with_layout T R S v = v\<lparr>thumbs := T, rows := R, sizingStyle := S\<rparr>"

text \<open>The ids of a data source before expansion: the ids of the given pages one after
  the other, each with the number of its page; for the data source as a whole, the pages
  from the lowest to the highest loaded one.\<close>

definition page_items :: "data_source \<Rightarrow> int list \<Rightarrow> (int \<times> media_id) list" where
  "page_items ds pages =
     concat (map (\<lambda>page. case mediaIdsByPage ds page of
                            None \<Rightarrow> []
                          | Some mediaIdsOnPage \<Rightarrow> map (\<lambda>mediaId. (page, mediaId)) mediaIdsOnPage)
                 pages)"

definition source_items :: "data_source \<Rightarrow> (int \<times> media_id) list" where
  "source_items ds = page_items ds [getLowestLoadedPage ds .. getHighestLoadedPage ds]"

text \<open>The flattened ids of a list of source ids, each with the page of the id it came
  from.\<close>

definition tagged_items :: "env \<Rightarrow> view \<Rightarrow> (int \<times> media_id) list \<Rightarrow> (media_id \<times> int) list" where
  "tagged_items e v items =
     concat (map (\<lambda>(page, mediaId). map (\<lambda>x. (x, page)) (flattened_item e v mediaId)) items)"

text \<open>Two views give the same answers to \<open>isMediaIdExpanded\<close>.\<close>

definition agree :: "env \<Rightarrow> view \<Rightarrow> view \<Rightarrow> bool" where
  "agree e v v' \<longleftrightarrow>
     cache_only v v' \<and> (\<forall>m. fst (isMediaIdExpanded e m v') = fst (isMediaIdExpanded e m v))"

text \<open>Three posts on the first page; the second has three pages.\<close>

definition example_ids :: "media_id list" where
  "example_ids = [''illust:1-0'', ''illust:2-0'', ''illust:3-0'']"

text \<open>The view after the first \<open>refreshImages\<close> on these posts.\<close>

definition example_refreshed :: view where
  "example_refreshed =
     snd (refreshImages example_env None False (example_view (example_source example_ids)))"

text \<open>A view with one thumbnail in one open row, on a data source whose first page lists
  the same id twice.\<close>

definition example_duplicates :: view where
  "example_duplicates =
     (example_view (example_source [''illust:1-0'', ''illust:1-0'']))
       \<lparr>thumbs := [(''illust:1-0'', example_thumb ''illust:1-0'' False)],
        rows := [\<lparr>dataset_open = True, children = [example_thumb ''illust:1-0'' False]\<rparr>],
        sizingStyle := Some example_sizing\<rparr>"

text \<open>A view whose only row is open and holds three thumbnails of 300 by 300.\<close>

definition example_row_view :: view where
  "example_row_view =
     (example_view (example_source example_ids))
       \<lparr>rows := [\<lparr>dataset_open = True,
                   children = [example_thumb ''illust:1-0'' False,
                               example_thumb ''illust:2-0'' False,
                               example_thumb ''illust:2-1'' False]\<rparr>]\<rparr>"

text \<open>Five hundred distinct ids.\<close>

definition example_many :: "media_id list" where
  "example_many = map (\<lambda>i. ''illust:'' @ replicate i (CHR ''1'') @ ''-0'') [0 ..< 500]"

section \<open>Properties of the array helpers\<close>

lemma index_from_range:
  "index_from xs x i = -1 \<or> (i \<le> index_from xs x i \<and> index_from xs x i < i + int (length xs))"
  by (induction xs arbitrary: i) (auto, force+)

lemma indexOf_range:
  "indexOf xs x = -1 \<or> (0 \<le> indexOf xs x \<and> indexOf xs x < int (length xs))"
  using index_from_range [of xs _ 0] by (auto simp: indexOf_def split: option.splits)

lemma indexOf_less: "xs \<noteq> [] \<Longrightarrow> indexOf xs x \<le> int (length xs) - 1"
  using indexOf_range [of xs x] by (cases xs) auto

lemma index_from_found:
  "index_from xs x i \<noteq> -1 \<Longrightarrow> 0 \<le> i \<Longrightarrow>
     i \<le> index_from xs x i \<and> index_from xs x i < i + int (length xs)
       \<and> xs ! nat (index_from xs x i - i) = x"
proof (induction xs arbitrary: i)
  case Nil
  then show ?case by simp
next
  case (Cons y ys)
  show ?case
  proof (cases "y = x")
    case True
    then show ?thesis by simp
  next
    case False
    then have eq: "index_from (y # ys) x i = index_from ys x (i + 1)" by simp
    with Cons.prems have ne: "index_from ys x (i + 1) \<noteq> -1" by simp
    have "0 \<le> i + 1" using Cons.prems(2) by simp
    from Cons.IH [OF ne this]
    have ih: "i + 1 \<le> index_from ys x (i + 1)" "index_from ys x (i + 1) < i + 1 + int (length ys)"
      "ys ! nat (index_from ys x (i + 1) - (i + 1)) = x" by auto
    have "nat (index_from ys x (i + 1) - i) = Suc (nat (index_from ys x (i + 1) - (i + 1)))"
      using ih(1) by linarith
    then show ?thesis using ih eq by simp
  qed
qed

lemma indexOf_found:
  assumes "indexOf xs x \<noteq> -1"
  shows "0 \<le> indexOf xs x" "indexOf xs x < int (length xs)"
        "x = Some (xs ! nat (indexOf xs x))"
proof -
  from assms obtain a where a: "x = Some a" by (cases x) (auto simp: indexOf_def)
  with assms have "index_from xs a 0 \<noteq> -1" by (simp add: indexOf_def)
  from index_from_found [OF this] a
  show "0 \<le> indexOf xs x" "indexOf xs x < int (length xs)"
        "x = Some (xs ! nat (indexOf xs x))" by (auto simp: indexOf_def)
qed





lemma first_elem_Some: "first_elem xs = Some x \<Longrightarrow> xs \<noteq> []"
  by (auto simp: first_elem_def)

lemma slice_nonneg:
  "0 \<le> s \<Longrightarrow> 0 \<le> e \<Longrightarrow>
     slice xs s e = take (nat (min e (int (length xs)) - min s (int (length xs)))) (drop (nat s) xs)"
  by (simp add: slice_def Let_def min_def)

lemma slice_in_range:
  "0 \<le> s \<Longrightarrow> s \<le> e \<Longrightarrow> e \<le> int (length xs) \<Longrightarrow>
     slice xs s e = take (nat (e - s)) (drop (nat s) xs)"
  by (simp add: slice_nonneg min_def)


lemma distinct_slice: "distinct xs \<Longrightarrow> distinct (slice xs s e)"
  by (simp add: slice_def Let_def)

lemma nth_upto_drop:
  assumes "-1 \<le> l"
  shows "map (\<lambda>idx. xs ! nat idx) [l + 1 .. int (length xs) - 1] = drop (nat (l + 1)) xs"
proof (rule nth_equalityI)
  show "length (map (\<lambda>idx. xs ! nat idx) [l + 1 .. int (length xs) - 1]) = length (drop (nat (l + 1)) xs)"
    using assms by auto
next
  fix i assume "i < length (map (\<lambda>idx. xs ! nat idx) [l + 1 .. int (length xs) - 1])"
  then have i: "l + 1 + int i \<le> int (length xs) - 1" by auto
  then have "[l + 1 .. int (length xs) - 1] ! i = l + 1 + int i" by (simp add: nth_upto)
  then have "map (\<lambda>idx. xs ! nat idx) [l + 1 .. int (length xs) - 1] ! i = xs ! nat (l + 1 + int i)"
    using i by simp
  also have "\<dots> = drop (nat (l + 1)) xs ! i"
    using assms i by (simp add: nat_add_distrib)
  finally show "map (\<lambda>idx. xs ! nat idx) [l + 1 .. int (length xs) - 1] ! i = drop (nat (l + 1)) xs ! i" .
qed

lemma nth_upto_take:
  assumes "0 \<le> f" "f \<le> int (length xs)"
  shows "map (\<lambda>idx. xs ! nat idx) [0 .. f - 1] = take (nat f) xs"
proof (rule nth_equalityI)
  show "length (map (\<lambda>idx. xs ! nat idx) [0 .. f - 1]) = length (take (nat f) xs)"
    using assms by auto
next
  fix i assume "i < length (map (\<lambda>idx. xs ! nat idx) [0 .. f - 1])"
  then have i: "int i \<le> f - 1" by auto
  then have "[0 .. f - 1] ! i = int i" by (simp add: nth_upto)
  then have "map (\<lambda>idx. xs ! nat idx) [0 .. f - 1] ! i = xs ! i"
    using i by simp
  also have "\<dots> = take (nat f) xs ! i" using i by simp
  finally show "map (\<lambda>idx. xs ! nat idx) [0 .. f - 1] ! i = take (nat f) xs ! i" .
qed

lemma nth_upto_rev_take:
  assumes "0 \<le> f" "f \<le> int (length xs)"
  shows "map (\<lambda>idx. xs ! nat idx) (rev [0 .. f - 1]) = rev (take (nat f) xs)"
  using nth_upto_take [OF assms] by (metis rev_map)

section \<open>Properties of the window\<close>

lemma expand_outwards_range:
  assumes "0 \<le> s" "s \<le> en" "en \<le> len - 1"
  shows "0 \<le> fst (expand_outwards len dp vp s en)
         \<and> fst (expand_outwards len dp vp s en) \<le> snd (expand_outwards len dp vp s en)
         \<and> snd (expand_outwards len dp vp s en) \<le> len - 1"
  using assms
proof (induction len dp vp s en rule: expand_outwards.induct)
  case (1 len desired viewPixels startIdx endIdx)
  let ?s = "if startIdx > 0 then startIdx - 1 else startIdx"
  let ?e = "if endIdx + 1 < len then endIdx + 1 else endIdx"
  show ?case
  proof (cases "(endIdx - startIdx) + 1 \<ge> len \<or> real_of_int ((endIdx - startIdx) + 1) * desired \<ge> viewPixels")
    case True
    then have "expand_outwards len desired viewPixels startIdx endIdx = (startIdx, endIdx)"
      by (subst expand_outwards.simps) (auto simp: Let_def)
    then show ?thesis using "1.prems" by simp
  next
    case False
    have "0 \<le> ?s" "?s \<le> ?e" "?e \<le> len - 1" using "1.prems" by auto
    then have IH: "0 \<le> fst (expand_outwards len desired viewPixels ?s ?e)
         \<and> fst (expand_outwards len desired viewPixels ?s ?e) \<le> snd (expand_outwards len desired viewPixels ?s ?e)
         \<and> snd (expand_outwards len desired viewPixels ?s ?e) \<le> len - 1"
      using "1.IH" [OF refl] False by simp
    have "expand_outwards len desired viewPixels startIdx endIdx = expand_outwards len desired viewPixels ?s ?e"
      using False by (subst expand_outwards.simps) (simp add: Let_def)
    with IH show ?thesis by simp
  qed
qed

lemma seed_range_start:
  assumes "allMediaIds \<noteq> []"
  shows "fst (seed_range e v allMediaIds t) \<le> int (length allMediaIds) - 1"
proof -
  have len: "0 \<le> int (length allMediaIds) - 1" using assms by (cases allMediaIds) auto
  note r = indexOf_less [OF assms]
  have a: "\<And>x k. 0 \<le> k \<Longrightarrow> indexOf allMediaIds x - k \<le> int (length allMediaIds) - 1"
    using r by (smt (verit))
  show ?thesis
    unfolding seed_range_def Let_def split_def
    using r len a [of 100] a [of 25] by (simp split: if_splits)
qed

lemma getMediaIdsToDisplay_range:
  assumes "allMediaIds \<noteq> []"
  shows "0 \<le> fst (getMediaIdsToDisplay e sz v allMediaIds t)
       \<and> fst (getMediaIdsToDisplay e sz v allMediaIds t) \<le> snd (getMediaIdsToDisplay e sz v allMediaIds t)
       \<and> snd (getMediaIdsToDisplay e sz v allMediaIds t) \<le> int (length allMediaIds) - 1"
proof -
  obtain s0 e0 where se: "seed_range e v allMediaIds t = (s0, e0)" by force
  have s0: "s0 \<le> int (length allMediaIds) - 1"
    using seed_range_start [OF assms, of e v t] se by simp
  have len: "0 \<le> int (length allMediaIds) - 1" using assms by (cases allMediaIds) auto
  have eq: "getMediaIdsToDisplay e sz v allMediaIds t =
     expand_outwards (int (length allMediaIds)) (desiredPixels sz)
       (containerWidth sz * scroller_offsetHeight e * 2)
       (max s0 0) (max (max s0 0) (min e0 (int (length allMediaIds) - 1)))"
    using assms se by (simp add: getMediaIdsToDisplay_def Let_def)
  show ?thesis
    unfolding eq
    by (rule expand_outwards_range) (use s0 len in auto)
qed

lemma expand_outwards_forward:
  assumes "0 \<le> en" "en < len"
      and "\<forall>j. 0 \<le> j \<and> j < en \<longrightarrow> real_of_int (j + 1) * dp < vp"
  shows "\<exists>k. expand_outwards len dp vp 0 en = (0, k) \<and> en \<le> k \<and> k < len
             \<and> (k + 1 \<ge> len \<or> real_of_int (k + 1) * dp \<ge> vp)
             \<and> (\<forall>j. 0 \<le> j \<and> j < k \<longrightarrow> real_of_int (j + 1) * dp < vp)"
  using assms
proof (induction "nat (len - en)" arbitrary: en rule: less_induct)
  case less
  show ?case
  proof (cases "en + 1 \<ge> len \<or> real_of_int (en + 1) * dp \<ge> vp")
    case True
    then have "expand_outwards len dp vp 0 en = (0, en)"
      by (subst expand_outwards.simps) (auto simp: Let_def)
    with True less.prems show ?thesis by auto
  next
    case False
    then have step: "expand_outwards len dp vp 0 en = expand_outwards len dp vp 0 (en + 1)"
      by (subst expand_outwards.simps) (auto simp: Let_def)
    have "\<forall>j. 0 \<le> j \<and> j < en + 1 \<longrightarrow> real_of_int (j + 1) * dp < vp"
    proof (intro allI impI)
      fix j assume "0 \<le> j \<and> j < en + 1"
      then have "j < en \<or> j = en" by auto
      then show "real_of_int (j + 1) * dp < vp"
        using less.prems(3) False \<open>0 \<le> j \<and> j < en + 1\<close> by auto
    qed
    moreover have "nat (len - (en + 1)) < nat (len - en)" using False by auto
    moreover have "0 \<le> en + 1" "en + 1 < len" using less.prems False by auto
    ultimately obtain k where "expand_outwards len dp vp 0 (en + 1) = (0, k)" "en + 1 \<le> k" "k < len"
      "k + 1 \<ge> len \<or> real_of_int (k + 1) * dp \<ge> vp"
      "\<forall>j. 0 \<le> j \<and> j < k \<longrightarrow> real_of_int (j + 1) * dp < vp"
      using less.hyps [of "en + 1"] by blast
    with step show ?thesis by (intro exI [of _ k]) auto
  qed
qed

lemma seed_range_empty:
  assumes "thumbs v = []"
  shows "seed_range e v allMediaIds None = (0, 0)"
  using assms
  by (simp add: seed_range_def indexOf_def getLoadedMediaIds_def getNearbyMediaIds_def
        first_elem_def last_elem_def)

section \<open>Reading the data source changes only the cache\<close>

lemma cache_only_refl: "cache_only v v"
  unfolding cache_only_def by (rule exI [of _ "mediaIdExpandedCache v"]) simp

lemma cache_only_trans: "cache_only a b \<Longrightarrow> cache_only b c \<Longrightarrow> cache_only a c"
  unfolding cache_only_def by auto

lemma cache_only_fields:
  assumes "cache_only v v'"
  shows "thumbs v' = thumbs v" "rows v' = rows v" "dataSource v' = dataSource v"
    "expandedMediaIds v' = expandedMediaIds v"
    "mediaIdsExpandedByDefault v' = mediaIdsExpandedByDefault v"
    "sizingStyle v' = sizingStyle v" "scrollTop v' = scrollTop v"
  using assms unfolding cache_only_def by auto

lemma uncached_cache_irrelevant:
  "isMediaIdExpanded_uncached e (v\<lparr>mediaIdExpandedCache := c\<rparr>) m = isMediaIdExpanded_uncached e v m"
  by (auto simp: isMediaIdExpanded_uncached_def Let_def split: option.splits)

lemma isMediaIdExpanded_cache_only: "cache_only v (snd (isMediaIdExpanded e m v))"
  by (auto simp: isMediaIdExpanded_def cache_only_def Let_def split: option.splits)






lemma getDataSourceMediaIds_distinct:
  assumes "getDataSourceMediaIds e v = (Inr (ids, mp), v1)"
  shows "distinct ids"
proof (cases "dataSource v")
  case None
  then show ?thesis using assms by (simp add: getDataSourceMediaIds_def)
next
  case (Some ds)
  obtain r ids' mp' v' where s: "add_pages e ds [getLowestLoadedPage ds .. getHighestLoadedPage ds] ([], Map.empty, v) = (r, ids', mp', v')"
    by (metis prod_cases4)
  from assms Some s have "length ids = length (remdups ids)"
    by (cases r) (auto simp: getDataSourceMediaIds_def split: if_splits)
  then show ?thesis by (metis distinct_remdups length_remdups_eq)
qed

lemma uncached_with_layout:
  "isMediaIdExpanded_uncached e (with_layout T R S v) m = isMediaIdExpanded_uncached e v m"
  by (auto simp: isMediaIdExpanded_uncached_def with_layout_def Let_def split: option.splits)

lemma isMediaIdExpanded_with_layout:
  "isMediaIdExpanded e m (with_layout T R S v) = apsnd (with_layout T R S) (isMediaIdExpanded e m v)"
  using uncached_with_layout [of e T R S v m]
  by (auto simp: isMediaIdExpanded_def Let_def with_layout_def split: option.splits)

lemma getExpandedPages_with_layout:
  "getExpandedPages e m (with_layout T R S v) = apsnd (with_layout T R S) (getExpandedPages e m v)"
  by (auto simp: getExpandedPages_def isMediaIdExpanded_with_layout split_def Let_def
        split: option.splits)

lemma add_media_id_with_layout:
  "add_media_id e page m (ids, mp, with_layout T R S v)
     = apsnd (apsnd (with_layout T R S)) (add_media_id e page m (ids, mp, v))"
  by (auto simp: add_media_id_def getExpandedPages_with_layout split: prod.splits option.splits)

lemma fold_add_media_id_with_layout:
  "fold (add_media_id e page) ms (ids, mp, with_layout T R S v)
     = apsnd (apsnd (with_layout T R S)) (fold (add_media_id e page) ms (ids, mp, v))"
proof (induction ms arbitrary: ids mp v)
  case Nil
  then show ?case by simp
next
  case (Cons m ms)
  obtain ids1 mp1 v1 where s: "add_media_id e page m (ids, mp, v) = (ids1, mp1, v1)"
    by (metis prod_cases3)
  show ?case using Cons.IH [of ids1 mp1 v1] s by (simp add: add_media_id_with_layout)
qed

lemma add_pages_with_layout:
  "add_pages e ds pages (ids, mp, with_layout T R S v)
     = apsnd (apsnd (apsnd (with_layout T R S))) (add_pages e ds pages (ids, mp, v))"
proof (induction pages arbitrary: ids mp v)
  case Nil
  then show ?case by simp
next
  case (Cons page pages)
  show ?case
  proof (cases "mediaIdsByPage ds page")
    case None
    then show ?thesis by simp
  next
    case (Some onPage)
    obtain ids1 mp1 v1 where s: "fold (add_media_id e page) onPage (ids, mp, v) = (ids1, mp1, v1)"
      by (metis prod_cases3)
    show ?thesis using Cons.IH [of ids1 mp1 v1] s Some
      by (simp add: fold_add_media_id_with_layout)
  qed
qed

lemma dataSource_with_layout: "dataSource (with_layout T R S v) = dataSource v"
  by (simp add: with_layout_def)

lemma getDataSourceMediaIds_with_layout:
  "getDataSourceMediaIds e (with_layout T R S v)
     = apsnd (with_layout T R S) (getDataSourceMediaIds e v)"
proof (cases "dataSource v")
  case None
  then show ?thesis by (simp add: getDataSourceMediaIds_def dataSource_with_layout)
next
  case (Some ds)
  obtain r ids mp v1 where s: "add_pages e ds [getLowestLoadedPage ds .. getHighestLoadedPage ds] ([], Map.empty, v) = (r, ids, mp, v1)"
    by (metis prod_cases4)
  show ?thesis using Some s
    by (cases r) (simp_all add: getDataSourceMediaIds_def dataSource_with_layout add_pages_with_layout)
qed

section \<open>Creating thumbnails\<close>

lemma getOpenRow_thumbs: "thumbs (snd (getOpenRow atEnd v)) = thumbs v"
  by (simp add: getOpenRow_def Let_def split: option.splits)

lemma addThumbToRow_thumbs: "thumbs (addThumbToRow e sz node atEnd v) = thumbs v"
proof -
  obtain i v1 where g: "getOpenRow atEnd v = (i, v1)" by force
  have t1: "thumbs v1 = thumbs v" using getOpenRow_thumbs [of atEnd v] g by simp
  obtain j v3 where g2: "getOpenRow atEnd (v1\<lparr>rows := (rows v1)[i := closeRow e sz (rows v1 ! i)]\<rparr>) = (j, v3)"
    by force
  have t3: "thumbs v3 = thumbs v1"
    using getOpenRow_thumbs [of atEnd "v1\<lparr>rows := (rows v1)[i := closeRow e sz (rows v1 ! i)]\<rparr>"] g2
    by simp
  show ?thesis using g g2 t1 t3 by (simp add: addThumbToRow_def Let_def)
qed

lemma setupThumb_cache_only: "cache_only v (snd (setupThumb e sz element v))"
  using isMediaIdExpanded_cache_only [of v e "dataset_id element"]
  by (auto simp: setupThumb_def Let_def split_def cache_only_refl
        split: sum.splits option.splits prod.splits)

lemma createThumb_cache_only: "cache_only v (snd (createThumb e sz m p v))"
  by (simp add: createThumb_def setupThumb_cache_only)

lemma keys_addToEnd:
  "k \<notin> fst ` set object \<Longrightarrow> map fst (addToEnd object k val) = map fst object @ [k]"
  by (induction object) (auto simp: addToEnd_def)

lemma keys_addToBeginning:
  "k \<notin> fst ` set object \<Longrightarrow> map fst (addToBeginning object k val) = k # map fst object"
  by (induction object) (auto simp: addToBeginning_def)

lemma addThumbsToEnd_keys:
  assumes "addThumbsToEnd e sz mp xs v = (Inr u, v')"
      and "distinct xs" and "set xs \<inter> fst ` set (thumbs v) = {}"
  shows "map fst (thumbs v') = map fst (thumbs v) @ xs"
  using assms
proof (induction xs arbitrary: v)
  case Nil
  then show ?case by simp
next
  case (Cons m xs)
  obtain r v1 where c: "createThumb e sz m (mp m) v = (r, v1)" by force
  have co: "cache_only v v1" using createThumb_cache_only [of v e sz m "mp m"] c by simp
  then have t1: "thumbs v1 = thumbs v" by (rule cache_only_fields)
  from Cons.prems(1) c obtain node where r: "r = Inr node" by (cases r) auto
  let ?v2 = "addThumbToRow e sz node True (v1\<lparr>thumbs := addToEnd (thumbs v1) m node\<rparr>)"
  have rec: "addThumbsToEnd e sz mp xs ?v2 = (Inr u, v')"
    using Cons.prems(1) c r by simp
  have notin: "m \<notin> fst ` set (thumbs v)" using Cons.prems(3) by auto
  have k2: "map fst (thumbs ?v2) = map fst (thumbs v) @ [m]"
    using keys_addToEnd [OF notin] t1 by (simp add: addThumbToRow_thumbs)
  have "set xs \<inter> fst ` set (thumbs ?v2) = {}"
  proof -
    have "fst ` set (thumbs ?v2) = set (map fst (thumbs ?v2))" by simp
    also have "\<dots> = fst ` set (thumbs v) \<union> {m}" unfolding k2 by auto
    finally show ?thesis using Cons.prems(2,3) by auto
  qed
  then have "map fst (thumbs v') = map fst (thumbs ?v2) @ xs"
    using Cons.IH [OF rec] Cons.prems(2) by simp
  then show ?case using k2 by simp
qed

lemma addThumbsToBeginning_keys:
  assumes "addThumbsToBeginning e sz mp xs v = (Inr u, v')"
      and "distinct xs" and "set xs \<inter> fst ` set (thumbs v) = {}"
  shows "map fst (thumbs v') = rev xs @ map fst (thumbs v)"
  using assms
proof (induction xs arbitrary: v)
  case Nil
  then show ?case by simp
next
  case (Cons m xs)
  obtain r v1 where c: "createThumb e sz m (mp m) v = (r, v1)" by force
  have co: "cache_only v v1" using createThumb_cache_only [of v e sz m "mp m"] c by simp
  then have t1: "thumbs v1 = thumbs v" by (rule cache_only_fields)
  from Cons.prems(1) c obtain node where r: "r = Inr node" by (cases r) auto
  let ?v2 = "addThumbToRow e sz node False (v1\<lparr>thumbs := addToBeginning (thumbs v1) m node\<rparr>)"
  have rec: "addThumbsToBeginning e sz mp xs ?v2 = (Inr u, v')"
    using Cons.prems(1) c r by simp
  have notin: "m \<notin> fst ` set (thumbs v)" using Cons.prems(3) by auto
  have k2: "map fst (thumbs ?v2) = m # map fst (thumbs v)"
    using keys_addToBeginning [OF notin] t1 by (simp add: addThumbToRow_thumbs)
  have "set xs \<inter> fst ` set (thumbs ?v2) = {}"
  proof -
    have "fst ` set (thumbs ?v2) = set (map fst (thumbs ?v2))" by simp
    also have "\<dots> = fst ` set (thumbs v) \<union> {m}" unfolding k2 by auto
    finally show ?thesis using Cons.prems(2,3) by auto
  qed
  then have "map fst (thumbs v') = rev xs @ map fst (thumbs ?v2)"
    using Cons.IH [OF rec] Cons.prems(2) by simp
  then show ?case using k2 by simp
qed

lemma restoreScrollPosition_thumbs:
  "thumbs (snd (restoreScrollPosition e sc v)) = thumbs v"
  "rows (snd (restoreScrollPosition e sc v)) = rows v"
  by (simp_all add: restoreScrollPosition_def split: option.splits thumbs_value.splits)

section \<open>The steps of a refresh\<close>

lemma existing_range_shape:
  assumes "existing_range mediaIds t v = ((l, f, inc), v3)"
  shows "0 \<le> f \<and> f \<le> l + 1 \<and> l + 1 \<le> int (length mediaIds)
       \<and> map fst (thumbs v3) = take (nat (l + 1 - f)) (drop (nat f) mediaIds)
       \<and> (inc \<longrightarrow> v3 = v \<and> thumbs v \<noteq> []) \<and> (\<not> inc \<longrightarrow> v3 = clearThumbs v)"
proof -
  let ?cur = "map fst (thumbs v)"
  let ?f = "indexOf mediaIds (first_elem ?cur)"
  let ?l = "indexOf mediaIds (last_elem ?cur)"
  let ?inc = "?f \<noteq> -1 \<and> ?l \<noteq> -1 \<and> slice mediaIds ?f (?l + 1) = ?cur"
  show ?thesis
  proof (cases ?inc)
    case True
    then have res: "l = ?l" "f = ?f" "inc" "v3 = v"
      using assms by (auto simp: existing_range_def Let_def)
    from True have f: "0 \<le> ?f" "?f < int (length mediaIds)"
      and l: "0 \<le> ?l" "?l < int (length mediaIds)"
      using indexOf_found [of mediaIds] by auto
    from True have "first_elem ?cur \<noteq> None" by (auto simp: indexOf_def split: option.splits)
    then have ne: "?cur \<noteq> []" by (auto simp: first_elem_def)
    have sl: "slice mediaIds ?f (?l + 1) = take (nat (?l + 1 - ?f)) (drop (nat ?f) mediaIds)"
      using f l by (simp add: slice_nonneg min_def)
    with True ne have "take (nat (?l + 1 - ?f)) (drop (nat ?f) mediaIds) \<noteq> []" by simp
    then have "?f \<le> ?l + 1" by (cases "?f \<le> ?l + 1") auto
    then show ?thesis using res f l sl True ne by auto
  next
    case False
    let ?r = "indexOf mediaIds t"
    from False have res: "v3 = clearThumbs v" "\<not> inc"
      "(l, f) = (if ?r \<noteq> -1 then (?r - 1, ?r) else (-1, 0))"
      using assms by (auto simp: existing_range_def Let_def split: if_splits)
    show ?thesis
    proof (cases "?r \<noteq> -1")
      case True
      then have "0 \<le> ?r" "?r < int (length mediaIds)" using indexOf_found [of mediaIds t] by auto
      then show ?thesis using res True by (auto simp: clearThumbs_def)
    next
      case False
      then show ?thesis using res by (auto simp: clearThumbs_def)
    qed
  qed
qed



lemma refreshImages_unfold:
  fixes e :: env and t :: "media_id option" and purge :: bool and v :: view
  assumes "dataSource v = Some ds"
  defines "sz \<equiv> makeThumbnailSizingStyle e"
  defines "v0 \<equiv> v\<lparr>sizingStyle := Some sz\<rparr>"
  defines "saved \<equiv> saveScrollPosition e v0"
  defines "purge' \<equiv> (purge \<or> (sizingStyle v \<noteq> None \<and> sizingStyle v \<noteq> Some sz))"
  defines "t1 \<equiv> (if purge' \<and> t = None then map_option scroll_mediaId saved else t)"
  defines "vp \<equiv> (if purge' then clearThumbs v0 else v0)"
  shows "refreshImages e t purge v =
     (case getDataSourceMediaIds e vp of
        (Inl err, w) \<Rightarrow> (Inl err, w)
      | (Inr (allMediaIds, mediaIdPages), w) \<Rightarrow>
          let t' = (if t1 \<noteq> None \<and> indexOf allMediaIds t1 = -1
                    then map_option (getMediaIdFirstPage e) t1 else t1);
              se = getMediaIdsToDisplay e sz w allMediaIds t';
              mediaIds = slice allMediaIds (fst se) (snd se + 1);
              er = existing_range mediaIds t' w
          in case addThumbsToEnd e sz mediaIdPages
                    (map (\<lambda>idx. mediaIds ! nat idx)
                         [fst (fst er) + 1 .. int (length mediaIds) - 1]) (snd er) of
               (Inl err, w) \<Rightarrow> (Inl err, w)
             | (Inr _, w) \<Rightarrow>
                 (case addThumbsToBeginning e sz mediaIdPages
                         (map (\<lambda>idx. mediaIds ! nat idx) (rev [0 .. fst (snd (fst er)) - 1])) w of
                    (Inl err, w) \<Rightarrow> (Inl err, w)
                  | (Inr _, w) \<Rightarrow> (Inr (), snd (restoreScrollPosition e saved w))))"
  unfolding refreshImages_def sz_def v0_def saved_def purge'_def t1_def vp_def Let_def split_def
  using assms(1) by simp

lemma fill_keys:
  assumes d: "distinct mediaIds"
      and er: "existing_range mediaIds t' w = ((l, f, inc), v3)"
      and a: "addThumbsToEnd e sz mp (map (\<lambda>idx. mediaIds ! nat idx) [l + 1 .. int (length mediaIds) - 1]) v3 = (Inr u, v4)"
      and b: "addThumbsToBeginning e sz mp (map (\<lambda>idx. mediaIds ! nat idx) (rev [0 .. f - 1])) v4 = (Inr u', v5)"
  shows "map fst (thumbs v5) = mediaIds"
proof -
  from existing_range_shape [OF er]
  have f: "0 \<le> f" "f \<le> l + 1" "l + 1 \<le> int (length mediaIds)"
    and k3: "map fst (thumbs v3) = take (nat (l + 1 - f)) (drop (nat f) mediaIds)" by auto
  let ?F = "nat f" and ?L = "nat (l + 1)"
  have FL: "?F \<le> ?L" "?L \<le> length mediaIds" using f by auto
  have A: "map (\<lambda>idx. mediaIds ! nat idx) [l + 1 .. int (length mediaIds) - 1] = drop ?L mediaIds"
    using f by (intro nth_upto_drop) auto
  have B: "map (\<lambda>idx. mediaIds ! nat idx) (rev [0 .. f - 1]) = rev (take ?F mediaIds)"
    using f by (intro nth_upto_rev_take) auto
  have mid: "take (nat (l + 1 - f)) (drop ?F mediaIds) = drop ?F (take ?L mediaIds)"
  proof -
    have "nat (l + 1 - f) = ?L - ?F" using f by auto
    then show ?thesis by (simp add: drop_take)
  qed
  have split3: "mediaIds = take ?F mediaIds @ drop ?F (take ?L mediaIds) @ drop ?L mediaIds"
  proof -
    have "take ?L mediaIds = take ?F (take ?L mediaIds) @ drop ?F (take ?L mediaIds)"
      by (rule append_take_drop_id [symmetric])
    also have "take ?F (take ?L mediaIds) = take ?F mediaIds" using FL by (simp add: min_def)
    finally have "take ?L mediaIds = take ?F mediaIds @ drop ?F (take ?L mediaIds)" .
    then have "take ?L mediaIds @ drop ?L mediaIds
               = (take ?F mediaIds @ drop ?F (take ?L mediaIds)) @ drop ?L mediaIds" by simp
    then show ?thesis by simp
  qed
  have d3: "distinct (take ?F mediaIds @ drop ?F (take ?L mediaIds) @ drop ?L mediaIds)"
    using d split3 by simp
  have dA: "distinct (drop ?L mediaIds)" using d by simp
  have iA: "set (drop ?L mediaIds) \<inter> fst ` set (thumbs v3) = {}"
  proof -
    have "fst ` set (thumbs v3) = set (map fst (thumbs v3))" by simp
    also have "\<dots> = set (drop ?F (take ?L mediaIds))" using k3 mid by simp
    finally show ?thesis using d3 by auto
  qed
  have k4: "map fst (thumbs v4) = drop ?F (take ?L mediaIds) @ drop ?L mediaIds"
    using addThumbsToEnd_keys [OF a [unfolded A] dA iA] k3 mid by simp
  have dB: "distinct (rev (take ?F mediaIds))" using d by simp
  have iB: "set (rev (take ?F mediaIds)) \<inter> fst ` set (thumbs v4) = {}"
  proof -
    have "fst ` set (thumbs v4) = set (map fst (thumbs v4))" by simp
    also have "\<dots> = set (drop ?F (take ?L mediaIds) @ drop ?L mediaIds)" using k4 by simp
    finally show ?thesis using d3 by auto
  qed
  have "map fst (thumbs v5) = rev (rev (take ?F mediaIds)) @ map fst (thumbs v4)"
    by (rule addThumbsToBeginning_keys [OF b [unfolded B] dB iB])
  then show ?thesis using k4 split3 by simp
qed

lemma refreshImages_keys:
  assumes ok: "refreshImages e t purge v = (Inr (), v')" and ds: "dataSource v = Some ds"
  shows "\<exists>allMediaIds mediaIdPages v1 w t'.
           getDataSourceMediaIds e v = (Inr (allMediaIds, mediaIdPages), v1)
         \<and> distinct allMediaIds
         \<and> map fst (thumbs v') =
             slice allMediaIds
               (fst (getMediaIdsToDisplay e (makeThumbnailSizingStyle e) w allMediaIds t'))
               (snd (getMediaIdsToDisplay e (makeThumbnailSizingStyle e) w allMediaIds t') + 1)"
proof -
  define sz where "sz = makeThumbnailSizingStyle e"
  define v0 where "v0 = v\<lparr>sizingStyle := Some sz\<rparr>"
  define saved where "saved = saveScrollPosition e v0"
  define purge' where "purge' = (purge \<or> (sizingStyle v \<noteq> None \<and> sizingStyle v \<noteq> Some sz))"
  define t1 where "t1 = (if purge' \<and> t = None then map_option scroll_mediaId saved else t)"
  define vp where "vp = (if purge' then clearThumbs v0 else v0)"
  note unf = refreshImages_unfold [OF ds, where e = e and purge = purge and t = t, folded sz_def, folded v0_def,
      folded saved_def, folded purge'_def, folded t1_def, folded vp_def]
  have vp_layout: "vp = with_layout (thumbs vp) (rows vp) (Some sz) v"
    by (simp add: vp_def v0_def with_layout_def clearThumbs_def)
  obtain r w where g: "getDataSourceMediaIds e vp = (r, w)" by force
  from ok unf g obtain allMediaIds mediaIdPages where r: "r = Inr (allMediaIds, mediaIdPages)"
    by (cases r) auto
  obtain r0 v1 where g0: "getDataSourceMediaIds e v = (r0, v1)" by force
  have "getDataSourceMediaIds e vp = apsnd (with_layout (thumbs vp) (rows vp) (Some sz)) (getDataSourceMediaIds e v)"
    by (subst vp_layout) (rule getDataSourceMediaIds_with_layout)
  with g g0 r have r0: "r0 = Inr (allMediaIds, mediaIdPages)" by simp
  have dist: "distinct allMediaIds" using getDataSourceMediaIds_distinct g r by blast
  define t' where "t' = (if t1 \<noteq> None \<and> indexOf allMediaIds t1 = -1
                    then map_option (getMediaIdFirstPage e) t1 else t1)"
  define se where "se = getMediaIdsToDisplay e sz w allMediaIds t'"
  define mediaIds where "mediaIds = slice allMediaIds (fst se) (snd se + 1)"
  obtain l f inc v3 where er: "existing_range mediaIds t' w = ((l, f, inc), v3)"
    by (metis surj_pair)
  obtain ra v4 where a: "addThumbsToEnd e sz mediaIdPages
        (map (\<lambda>idx. mediaIds ! nat idx) [l + 1 .. int (length mediaIds) - 1]) v3 = (ra, v4)"
    by force
  obtain rb v5 where b: "addThumbsToBeginning e sz mediaIdPages
        (map (\<lambda>idx. mediaIds ! nat idx) (rev [0 .. f - 1])) v4 = (rb, v5)"
    by force
  have res: "refreshImages e t purge v =
       (case ra of Inl err \<Rightarrow> (Inl err, v4)
        | Inr _ \<Rightarrow> (case rb of Inl err \<Rightarrow> (Inl err, v5)
                     | Inr _ \<Rightarrow> (Inr (), snd (restoreScrollPosition e saved v5))))"
    apply (subst unf)
    apply (simp only: g r prod.case sum.case Let_def t'_def [symmetric])
    apply (simp only: se_def [symmetric])
    apply (simp only: mediaIds_def [symmetric])
    apply (simp only: er fst_conv snd_conv a b prod.case)
    done
  from ok res obtain u where ra: "ra = Inr u" by (cases ra) auto
  from ok res ra obtain u' where rb: "rb = Inr u'" by (cases rb) auto
  from ok res ra rb have v': "v' = snd (restoreScrollPosition e saved v5)" by simp
  have dm: "distinct mediaIds" unfolding mediaIds_def by (rule distinct_slice [OF dist])
  have "map fst (thumbs v5) = mediaIds"
    by (rule fill_keys [OF dm er a [unfolded ra] b [unfolded rb]])
  then have "map fst (thumbs v') = mediaIds" using v' by (simp add: restoreScrollPosition_thumbs)
  then show ?thesis using g0 r0 dist unfolding mediaIds_def se_def sz_def by blast
qed

section \<open>The flattened list, item by item\<close>

lemma agree_refl: "agree e v v"
  by (simp add: agree_def cache_only_refl)

lemma agree_trans: "agree e a b \<Longrightarrow> agree e b c \<Longrightarrow> agree e a c"
  unfolding agree_def using cache_only_trans by auto

lemma isMediaIdExpanded_agree: "agree e v (snd (isMediaIdExpanded e m v))"
proof -
  have "fst (isMediaIdExpanded e m' (snd (isMediaIdExpanded e m v)))
        = fst (isMediaIdExpanded e m' v)" for m'
    by (auto simp: isMediaIdExpanded_def Let_def uncached_cache_irrelevant split: option.splits)
  then show ?thesis by (simp add: agree_def isMediaIdExpanded_cache_only)
qed

lemma getExpandedPages_fst_agree:
  "agree e v v' \<Longrightarrow> fst (getExpandedPages e m v') = fst (getExpandedPages e m v)"
  by (auto simp: getExpandedPages_def agree_def split_def Let_def split: option.splits)

lemma flattened_item_agree: "agree e v v' \<Longrightarrow> flattened_item e v' m = flattened_item e v m"
  by (simp add: flattened_item_def getExpandedPages_fst_agree)

lemma getExpandedPages_agree: "agree e v (snd (getExpandedPages e m v))"
  using isMediaIdExpanded_agree [of e v m]
  by (auto simp: getExpandedPages_def split_def Let_def split: option.splits)

lemma add_media_id_eq:
  "\<exists>v'. add_media_id e page m (ids, mp, v)
           = (ids @ flattened_item e v m,
              fold (\<lambda>x mp. mp(x \<mapsto> page)) (flattened_item e v m) mp, v')
        \<and> agree e v v'"
proof -
  obtain r v1 where g: "getExpandedPages e m v = (r, v1)" by force
  have ag: "agree e v v1" using getExpandedPages_agree [of e v m] g by simp
  show ?thesis using g ag
    by (cases r) (auto simp: add_media_id_def flattened_item_def)
qed

lemma fold_add_media_id_eq:
  "\<exists>v'. fold (add_media_id e page) ms (ids, mp, v)
           = (ids @ concat (map (flattened_item e v) ms),
              fold (\<lambda>x mp. mp(x \<mapsto> page)) (concat (map (flattened_item e v) ms)) mp, v')
        \<and> agree e v v'"
proof (induction ms arbitrary: ids mp v)
  case Nil
  then show ?case by (simp add: agree_refl)
next
  case (Cons m ms)
  obtain v1 where s: "add_media_id e page m (ids, mp, v)
           = (ids @ flattened_item e v m,
              fold (\<lambda>x mp. mp(x \<mapsto> page)) (flattened_item e v m) mp, v1)"
    and ag1: "agree e v v1"
    using add_media_id_eq [of e page m ids mp v] by blast
  obtain v2 where r: "fold (add_media_id e page) ms
             (ids @ flattened_item e v m,
              fold (\<lambda>x mp. mp(x \<mapsto> page)) (flattened_item e v m) mp, v1)
           = ((ids @ flattened_item e v m) @ concat (map (flattened_item e v1) ms),
              fold (\<lambda>x mp. mp(x \<mapsto> page)) (concat (map (flattened_item e v1) ms))
                (fold (\<lambda>x mp. mp(x \<mapsto> page)) (flattened_item e v m) mp), v2)"
    and ag2: "agree e v1 v2"
    using Cons.IH by blast
  have same: "map (flattened_item e v1) ms = map (flattened_item e v) ms"
    using flattened_item_agree [OF ag1] by simp
  have ag: "agree e v v2" using ag1 ag2 by (rule agree_trans)
  have "fold (add_media_id e page) (m # ms) (ids, mp, v)
           = (ids @ concat (map (flattened_item e v) (m # ms)),
              fold (\<lambda>x mp. mp(x \<mapsto> page)) (concat (map (flattened_item e v) (m # ms))) mp, v2)"
    by (simp only: fold_Cons comp_apply s r same list.map concat.simps fold_append append_assoc)
  with ag show ?case by blast
qed

lemma tagged_items_append:
  "tagged_items e v (a @ b) = tagged_items e v a @ tagged_items e v b"
  by (simp add: tagged_items_def)

lemma tagged_items_agree: "agree e v v' \<Longrightarrow> tagged_items e v' items = tagged_items e v items"
  by (simp add: tagged_items_def flattened_item_agree)

lemma tagged_items_page_fst:
  "map fst (tagged_items e v (map (\<lambda>m. (page, m)) ms)) = concat (map (flattened_item e v) ms)"
  by (induction ms) (simp_all add: tagged_items_def comp_def)

lemma fold_tagged_const:
  "fold (\<lambda>(x, p) mp. mp(x \<mapsto> p)) (map (\<lambda>x. (x, page)) xs) mp
     = fold (\<lambda>x mp. mp(x \<mapsto> page)) xs mp"
  by (induction xs arbitrary: mp) simp_all

lemma fold_tagged_page:
  "fold (\<lambda>(x, p) mp. mp(x \<mapsto> p)) (tagged_items e v (map (\<lambda>m. (page, m)) ms)) mp
     = fold (\<lambda>x mp. mp(x \<mapsto> page)) (concat (map (flattened_item e v) ms)) mp"
proof (induction ms arbitrary: mp)
  case Nil
  then show ?case by (simp add: tagged_items_def)
next
  case (Cons m ms)
  have "tagged_items e v (map (\<lambda>m. (page, m)) (m # ms))
        = map (\<lambda>x. (x, page)) (flattened_item e v m) @ tagged_items e v (map (\<lambda>m. (page, m)) ms)"
    by (simp add: tagged_items_def)
  then show ?case
    by (simp only: fold_append comp_apply fold_tagged_const Cons.IH list.map concat.simps)
qed

lemma page_items_Cons:
  "mediaIdsByPage ds page = Some ms \<Longrightarrow>
     page_items ds (page # pages) = map (\<lambda>m. (page, m)) ms @ page_items ds pages"
  by (simp add: page_items_def)

lemma add_pages_eq:
  assumes "add_pages e ds pages (ids, mp, v) = (Inr u, ids', mp', v')"
  shows "ids' = ids @ map fst (tagged_items e v (page_items ds pages))
       \<and> mp' = fold (\<lambda>(x, p) mp. mp(x \<mapsto> p)) (tagged_items e v (page_items ds pages)) mp
       \<and> agree e v v'"
  using assms
proof (induction pages arbitrary: ids mp v)
  case Nil
  then show ?case by (simp add: page_items_def tagged_items_def agree_refl)
next
  case (Cons page pages)
  from Cons.prems obtain ms where ms: "mediaIdsByPage ds page = Some ms"
    by (cases "mediaIdsByPage ds page") auto
  obtain v1 where f: "fold (add_media_id e page) ms (ids, mp, v)
           = (ids @ concat (map (flattened_item e v) ms),
              fold (\<lambda>x mp. mp(x \<mapsto> page)) (concat (map (flattened_item e v) ms)) mp, v1)"
    and ag1: "agree e v v1"
    using fold_add_media_id_eq [of e page ms ids mp v] by blast
  have rec: "add_pages e ds pages
               (ids @ concat (map (flattened_item e v) ms),
                fold (\<lambda>x mp. mp(x \<mapsto> page)) (concat (map (flattened_item e v) ms)) mp, v1)
             = (Inr u, ids', mp', v')"
    using Cons.prems ms f by simp
  note ih = Cons.IH [OF rec]
  have t: "tagged_items e v1 (page_items ds pages) = tagged_items e v (page_items ds pages)"
    by (rule tagged_items_agree [OF ag1])
  have T: "tagged_items e v (page_items ds (page # pages))
           = tagged_items e v (map (\<lambda>m. (page, m)) ms) @ tagged_items e v (page_items ds pages)"
    by (simp only: page_items_Cons [OF ms] tagged_items_append)
  have 1: "ids' = ids @ map fst (tagged_items e v (page_items ds (page # pages)))"
    using ih unfolding t T by (simp add: tagged_items_page_fst)
  have 2: "mp' = fold (\<lambda>(x, p) mp. mp(x \<mapsto> p)) (tagged_items e v (page_items ds (page # pages))) mp"
    using ih unfolding t T by (simp only: fold_append comp_apply fold_tagged_page)
  have 3: "agree e v v'" using ag1 ih by (blast intro: agree_trans)
  from 1 2 3 show ?case by blast
qed

lemma fold_upd_other:
  "x \<notin> fst ` set TL \<Longrightarrow> fold (\<lambda>(x, p) mp. mp(x \<mapsto> p)) TL m x = m x"
proof (induction TL arbitrary: m)
  case Nil
  then show ?case by simp
next
  case (Cons a TL)
  obtain y q where a: "a = (y, q)" by force
  have xy: "x \<noteq> y" and xt: "x \<notin> fst ` set TL" using Cons.prems a by auto
  have "fold (\<lambda>(x, p) mp. mp(x \<mapsto> p)) TL (m(y \<mapsto> q)) x = (m(y \<mapsto> q)) x"
    by (rule Cons.IH [OF xt])
  also have "(m(y \<mapsto> q)) x = m x" using xy by simp
  finally have "fold (\<lambda>(x, p) mp. mp(x \<mapsto> p)) TL (m(y \<mapsto> q)) x = m x" .
  then show ?case unfolding a by (simp only: fold_Cons comp_apply prod.case)
qed

lemma fold_upd_distinct:
  "distinct (map fst TL) \<Longrightarrow> (x, p) \<in> set TL \<Longrightarrow>
     fold (\<lambda>(x, p) mp. mp(x \<mapsto> p)) TL m x = Some p"
proof (induction TL arbitrary: m)
  case Nil
  then show ?case by simp
next
  case (Cons a TL)
  obtain y q where a: "a = (y, q)" by force
  show ?case
  proof (cases "(x, p) = (y, q)")
    case True
    then have "x \<notin> fst ` set TL" using Cons.prems(1) a by auto
    then have "fold (\<lambda>(x, p) mp. mp(x \<mapsto> p)) TL (m(x \<mapsto> p)) x = (m(x \<mapsto> p)) x"
      by (rule fold_upd_other)
    then have "fold (\<lambda>(x, p) mp. mp(x \<mapsto> p)) ((x, p) # TL) m x = Some p"
      by (simp only: fold_Cons comp_apply prod.case fun_upd_same)
    then show ?thesis using True a by (simp only:)
  next
    case False
    then have "(x, p) \<in> set TL" using Cons.prems(2) a by auto
    moreover have "distinct (map fst TL)" using Cons.prems(1) by simp
    ultimately have "fold (\<lambda>(x, p) mp. mp(x \<mapsto> p)) TL (m(y \<mapsto> q)) x = Some p"
      by (rule Cons.IH [rotated])
    then show ?thesis unfolding a by (simp only: fold_Cons comp_apply prod.case)
  qed
qed

lemma getDataSourceMediaIds_flat:
  assumes ds: "dataSource v = Some ds"
      and ok: "getDataSourceMediaIds e v = (Inr (allMediaIds, mediaIdPages), v')"
  shows "allMediaIds = map fst (tagged_items e v (source_items ds))
       \<and> mediaIdPages = fold (\<lambda>(x, p) mp. mp(x \<mapsto> p)) (tagged_items e v (source_items ds)) Map.empty
       \<and> distinct allMediaIds"
proof -
  obtain r ids mp v1 where s: "add_pages e ds [getLowestLoadedPage ds .. getHighestLoadedPage ds]
      ([], Map.empty, v) = (r, ids, mp, v1)"
    by (metis prod_cases4)
  from ok ds s obtain u where r: "r = Inr u" by (cases r) (auto simp: getDataSourceMediaIds_def)
  from ok ds s r have eq: "allMediaIds = ids" "mediaIdPages = mp"
    by (auto simp: getDataSourceMediaIds_def split: if_splits)
  from add_pages_eq [OF s [unfolded r]] eq getDataSourceMediaIds_distinct [OF ok]
  show ?thesis by (simp add: source_items_def)
qed

lemma tagged_items_mem:
  "(page, mediaId) \<in> set items \<Longrightarrow> x \<in> set (flattened_item e v mediaId) \<Longrightarrow>
     (x, page) \<in> set (tagged_items e v items)"
  by (force simp: tagged_items_def)

lemma tagged_items_fst:
  "map fst (tagged_items e v items) = concat (map (\<lambda>(page, mediaId). flattened_item e v mediaId) items)"
  by (induction items) (auto simp: tagged_items_def comp_def)

lemma flattened_item_expanded:
  assumes "fst (isMediaIdExpanded e mediaId v)"
      and "getMediaInfoSync e mediaId False = Some info"
  shows "flattened_item e v mediaId =
           (if pageCount info \<le> 1 then [mediaId]
            else map (\<lambda>mangaPage. encodeMediaId e
                        (fst (mediaId_parse e mediaId), fst (snd (mediaId_parse e mediaId)), mangaPage))
                   [0 ..< nat (pageCount info)])"
  using assms by (simp add: flattened_item_def getExpandedPages_def split_def Let_def)

section \<open>Adding to a row\<close>

lemma getOpenRow_edge:
  assumes "getOpenRow atEnd v = (i, v1)"
  shows "i < length (rows v1) \<and> i = (if atEnd then length (rows v1) - 1 else 0)
       \<and> dataset_open (rows v1 ! i)
       \<and> (rows v1 = rows v
            \<or> (rows v1 ! i = \<lparr>dataset_open = True, children = []\<rparr>
                \<and> rows v1 = (if atEnd then rows v @ [\<lparr>dataset_open = True, children = []\<rparr>]
                              else \<lparr>dataset_open = True, children = []\<rparr> # rows v)))"
proof (cases "rows v")
  case Nil
  then show ?thesis using assms
    by (auto simp: getOpenRow_def Let_def first_elem_def last_elem_def)
next
  case (Cons r rs)
  then have ne: "rows v \<noteq> []" by simp
  have le: "last_elem (rows v) = Some (last (rows v))" using Cons by (simp add: last_elem_def)
  have fe: "first_elem (rows v) = Some (hd (rows v))" using Cons by (simp add: first_elem_def)
  show ?thesis
  proof (cases atEnd)
    case True
    then show ?thesis using assms ne le
      by (auto simp: getOpenRow_def Let_def last_conv_nth nth_append split: if_splits)
  next
    case False
    then show ?thesis using assms ne fe
      by (auto simp: getOpenRow_def Let_def hd_conv_nth split: if_splits)
  qed
qed

lemma getOpenRow_closed_edge:
  assumes "rs \<noteq> []" and "\<not> dataset_open (if atEnd then last rs else hd rs)"
  shows "getOpenRow atEnd (v\<lparr>rows := rs\<rparr>)
         = (if atEnd then (length rs, v\<lparr>rows := rs @ [\<lparr>dataset_open = True, children = []\<rparr>]\<rparr>)
            else (0, v\<lparr>rows := \<lparr>dataset_open = True, children = []\<rparr> # rs\<rparr>))"
  using assms by (cases rs) (auto simp: getOpenRow_def Let_def first_elem_def last_elem_def)

lemma closeRow_closed: "\<not> dataset_open (closeRow e sz r)"
  by (simp add: closeRow_def)

lemma scrollWidth_le:
  "row_scrollWidth e sz ts \<le> row_offsetWidth e \<longleftrightarrow> row_contentWidth sz ts \<le> row_offsetWidth e"
  by (simp add: row_scrollWidth_def)

lemma equalize_pass_heights:
  assumes "\<forall>t \<in> set ts. offsetHeight t \<noteq> 0"
  shows "\<forall>t \<in> set (equalize_pass ts). offsetHeight t = maxHeight_of ts"
  using assms by (auto simp: equalize_pass_def scale_thumb_def Let_def)

lemma fill_pass_heights:
  assumes "\<forall>t \<in> set ts. offsetHeight t = h"
  shows "\<forall>t \<in> set (fill_pass e sz ts).
           offsetHeight t
             = h * (row_offsetWidth e
                     / fold (\<lambda>thumb w. w + offsetWidth thumb) ts
                         (0 + padding sz * (real (length ts) - 1)))"
  using assms by (auto simp: fill_pass_def scale_thumb_def Let_def)

lemma closeRow_equal_heights:
  assumes "dataset_open r"
      and "\<forall>t \<in> set (expand_pass e sz (children r)). offsetHeight t \<noteq> 0"
  shows "\<forall>a \<in> set (children (closeRow e sz r)). \<forall>b \<in> set (children (closeRow e sz r)).
           offsetHeight a = offsetHeight b"
proof -
  let ?ts = "equalize_pass (expand_pass e sz (children r))"
  have "\<forall>t \<in> set ?ts. offsetHeight t = maxHeight_of (expand_pass e sz (children r))"
    by (rule equalize_pass_heights [OF assms(2)])
  from fill_pass_heights [OF this, of e sz] assms(1) show ?thesis
    by (simp add: closeRow_def)
qed

section \<open>The window and the materialized ids\<close>

text \<open>
  Claim C1. For every list of ids that is not empty, every view and every target, the
  range that \<open>getMediaIdsToDisplay\<close> returns satisfies
  \<open>0 \<le> startIdx \<le> endIdx \<le> length - 1\<close>. And whatever the view was before, after a
  call of \<open>refreshImages\<close> that returns, the keys of \<open>thumbs\<close> are a slice
  \<open>startIdx .. endIdx\<close> of the flattened id list of the data source, in its order, without
  a gap and without a repeated id. Since the view before the call is arbitrary, this holds
  after any sequence of earlier triggers.
\<close>

theorem window_contiguous:
  "(allMediaIds \<noteq> [] \<longrightarrow>
      0 \<le> fst (getMediaIdsToDisplay e sz w allMediaIds target)
      \<and> fst (getMediaIdsToDisplay e sz w allMediaIds target)
          \<le> snd (getMediaIdsToDisplay e sz w allMediaIds target)
      \<and> snd (getMediaIdsToDisplay e sz w allMediaIds target) \<le> int (length allMediaIds) - 1)
   \<and> (dataSource v = Some ds \<and> refreshImages e t purge v = (Inr (), v') \<longrightarrow>
        (\<exists>ids mediaIdPages v1 startIdx endIdx.
            getDataSourceMediaIds e v = (Inr (ids, mediaIdPages), v1)
          \<and> distinct ids
          \<and> map fst (thumbs v') = slice ids startIdx (endIdx + 1)
          \<and> distinct (map fst (thumbs v'))
          \<and> (\<exists>w t'. getMediaIdsToDisplay e (makeThumbnailSizingStyle e) w ids t'
                       = (startIdx, endIdx))
          \<and> (ids \<noteq> [] \<longrightarrow> 0 \<le> startIdx \<and> startIdx \<le> endIdx
                \<and> endIdx \<le> int (length ids) - 1)))"
proof (intro conjI impI)
  assume "allMediaIds \<noteq> []"
  then show "0 \<le> fst (getMediaIdsToDisplay e sz w allMediaIds target)"
    "fst (getMediaIdsToDisplay e sz w allMediaIds target)
          \<le> snd (getMediaIdsToDisplay e sz w allMediaIds target)"
    "snd (getMediaIdsToDisplay e sz w allMediaIds target) \<le> int (length allMediaIds) - 1"
    using getMediaIdsToDisplay_range [of allMediaIds e sz w target] by auto
next
  assume a: "dataSource v = Some ds \<and> refreshImages e t purge v = (Inr (), v')"
  then obtain ids mp v1 w' t' where k: "getDataSourceMediaIds e v = (Inr (ids, mp), v1)"
      "distinct ids"
      "map fst (thumbs v') =
             slice ids
               (fst (getMediaIdsToDisplay e (makeThumbnailSizingStyle e) w' ids t'))
               (snd (getMediaIdsToDisplay e (makeThumbnailSizingStyle e) w' ids t') + 1)"
    using refreshImages_keys [of e t purge v v' ds] by blast
  have "distinct (map fst (thumbs v'))" unfolding k(3) by (rule distinct_slice [OF k(2)])
  moreover have "ids \<noteq> [] \<longrightarrow> 0 \<le> fst (getMediaIdsToDisplay e (makeThumbnailSizingStyle e) w' ids t')
      \<and> fst (getMediaIdsToDisplay e (makeThumbnailSizingStyle e) w' ids t')
          \<le> snd (getMediaIdsToDisplay e (makeThumbnailSizingStyle e) w' ids t')
      \<and> snd (getMediaIdsToDisplay e (makeThumbnailSizingStyle e) w' ids t') \<le> int (length ids) - 1"
    using getMediaIdsToDisplay_range [of ids e "makeThumbnailSizingStyle e" w' t'] by blast
  ultimately show "\<exists>ids mediaIdPages v1 startIdx endIdx.
            getDataSourceMediaIds e v = (Inr (ids, mediaIdPages), v1)
          \<and> distinct ids
          \<and> map fst (thumbs v') = slice ids startIdx (endIdx + 1)
          \<and> distinct (map fst (thumbs v'))
          \<and> (\<exists>w t'. getMediaIdsToDisplay e (makeThumbnailSizingStyle e) w ids t'
                       = (startIdx, endIdx))
          \<and> (ids \<noteq> [] \<longrightarrow> 0 \<le> startIdx \<and> startIdx \<le> endIdx
                \<and> endIdx \<le> int (length ids) - 1)"
    using k by (metis prod.collapse)
qed

theorem window_contiguous_witness:
  "[''illust:1-0'', ''illust:2-0'', ''illust:2-1'', ''illust:2-2'', ''illust:3-0''] \<noteq> []
   \<and> getMediaIdsToDisplay example_env example_sizing (example_view (example_source example_ids))
        [''illust:1-0'', ''illust:2-0'', ''illust:2-1'', ''illust:2-2'', ''illust:3-0''] None
       = (0, 4)
   \<and> dataSource (example_view (example_source example_ids)) = Some (example_source example_ids)
   \<and> fst (refreshImages example_env None False (example_view (example_source example_ids)))
       = Inr ()
   \<and> map fst (thumbs example_refreshed)
       = [''illust:1-0'', ''illust:2-0'', ''illust:2-1'', ''illust:2-2'', ''illust:3-0'']
   \<and> distinct (map fst (thumbs example_refreshed))"
proof -
  have r: "fst (refreshImages example_env None False (example_view (example_source example_ids)))
       = Inr ()"
    by code_simp
  have k: "map fst (thumbs example_refreshed)
       = [''illust:1-0'', ''illust:2-0'', ''illust:2-1'', ''illust:2-2'', ''illust:3-0'']"
    by code_simp
  have g: "getMediaIdsToDisplay example_env example_sizing (example_view (example_source example_ids))
        [''illust:1-0'', ''illust:2-0'', ''illust:2-1'', ''illust:2-2'', ''illust:3-0''] None
       = (0, 4)"
    by code_simp
  have d: "dataSource (example_view (example_source example_ids)) = Some (example_source example_ids)"
    by (simp add: example_view_def)
  have c: "refreshImages example_env None False (example_view (example_source example_ids))
       = (Inr (), example_refreshed)"
    using r unfolding example_refreshed_def by (metis prod.collapse)
  have "distinct (map fst (thumbs example_refreshed))"
    using window_contiguous [where v = "example_view (example_source example_ids)"
        and ds = "example_source example_ids" and e = example_env and t = None
        and purge = False and v' = example_refreshed] d c by blast
  with r k g d show ?thesis by simp
qed

section \<open>Duplicate ids\<close>

text \<open>
  Claim C2, as stated, fails: a refresh with \<open>purge\<close> set clears the thumbnails and the
  rows before it reads the data source, so when the duplicate check throws, the thumbnail
  that was materialized is gone.
\<close>

theorem purge_clears_before_duplicate_check:
  "fst (refreshImages example_env None True example_duplicates) = Inl DuplicateMediaIds
   \<and> map fst (thumbs example_duplicates) = [''illust:1-0'']
   \<and> thumbs (snd (refreshImages example_env None True example_duplicates)) = []
   \<and> rows (snd (refreshImages example_env None True example_duplicates)) = []"
  by code_simp

text \<open>
  Claim C2, amended. If the flattened id list holds a duplicate, \<open>refreshImages\<close> throws
  the duplicate error and creates nothing. When the refresh does not purge (\<open>purge\<close> is
  false and the sizing style is the one of the last refresh), the thumbnails and rows are
  as they were; when it purges, they have been cleared before the error.
\<close>

theorem duplicate_ids_abort:
  assumes ds: "dataSource v = Some ds"
      and flat: "add_pages e ds [getLowestLoadedPage ds .. getHighestLoadedPage ds]
                   ([], Map.empty, v) = (Inr (), allMediaIds, mediaIdPages, v1)"
      and dup: "\<not> distinct allMediaIds"
  shows "fst (refreshImages e t purge v) = Inl DuplicateMediaIds
       \<and> (if purge \<or> (sizingStyle v \<noteq> None \<and> sizingStyle v \<noteq> Some (makeThumbnailSizingStyle e))
          then thumbs (snd (refreshImages e t purge v)) = []
               \<and> rows (snd (refreshImages e t purge v)) = []
          else thumbs (snd (refreshImages e t purge v)) = thumbs v
               \<and> rows (snd (refreshImages e t purge v)) = rows v)"
proof -
  define sz where "sz = makeThumbnailSizingStyle e"
  define v0 where "v0 = v\<lparr>sizingStyle := Some sz\<rparr>"
  define purge' where "purge' = (purge \<or> (sizingStyle v \<noteq> None \<and> sizingStyle v \<noteq> Some sz))"
  define vp where "vp = (if purge' then clearThumbs v0 else v0)"
  note unf = refreshImages_unfold [OF ds, where e = e and purge = purge and t = t,
      folded sz_def, folded v0_def, folded purge'_def, folded vp_def]
  have "length allMediaIds \<noteq> length (remdups allMediaIds)"
    using dup by (metis distinct_remdups length_remdups_eq)
  then have g0: "getDataSourceMediaIds e v = (Inl DuplicateMediaIds, v1)"
    using ds flat by (simp add: getDataSourceMediaIds_def)
  have vp_layout: "vp = with_layout (thumbs vp) (rows vp) (Some sz) v"
    by (simp add: vp_def v0_def with_layout_def clearThumbs_def)
  have "getDataSourceMediaIds e vp = apsnd (with_layout (thumbs vp) (rows vp) (Some sz)) (getDataSourceMediaIds e v)"
    by (subst vp_layout) (rule getDataSourceMediaIds_with_layout)
  then have g: "getDataSourceMediaIds e vp = (Inl DuplicateMediaIds, with_layout (thumbs vp) (rows vp) (Some sz) v1)"
    using g0 by simp
  have res: "refreshImages e t purge v = (Inl DuplicateMediaIds, with_layout (thumbs vp) (rows vp) (Some sz) v1)"
    by (subst unf) (simp only: g prod.case sum.case)
  show ?thesis
    unfolding res sz_def [symmetric] purge'_def [symmetric]
    by (simp add: with_layout_def vp_def v0_def clearThumbs_def)
qed

theorem duplicate_ids_abort_witness:
  "dataSource example_duplicates = Some (example_source [''illust:1-0'', ''illust:1-0''])
   \<and> fst (add_pages example_env (example_source [''illust:1-0'', ''illust:1-0'']) [1 .. 1]
            ([], Map.empty, example_duplicates)) = Inr ()
   \<and> fst (snd (add_pages example_env (example_source [''illust:1-0'', ''illust:1-0'']) [1 .. 1]
            ([], Map.empty, example_duplicates))) = [''illust:1-0'', ''illust:1-0'']
   \<and> \<not> distinct [''illust:1-0'', ''illust:1-0'']
   \<and> fst (refreshImages example_env None False example_duplicates) = Inl DuplicateMediaIds
   \<and> thumbs (snd (refreshImages example_env None False example_duplicates))
       = thumbs example_duplicates
   \<and> rows (snd (refreshImages example_env None False example_duplicates))
       = rows example_duplicates"
proof -
  let ?ds = "example_source [''illust:1-0'', ''illust:1-0'']"
  let ?r = "add_pages example_env ?ds [1 .. 1] ([], Map.empty, example_duplicates)"
  have d: "dataSource example_duplicates = Some ?ds"
    by (simp add: example_duplicates_def example_view_def)
  have a: "fst ?r = Inr ()" by code_simp
  have b: "fst (snd ?r) = [''illust:1-0'', ''illust:1-0'']" by code_simp
  have lo: "getLowestLoadedPage ?ds = 1" "getHighestLoadedPage ?ds = 1"
    by (simp_all add: example_source_def)
  have flat: "add_pages example_env ?ds [getLowestLoadedPage ?ds .. getHighestLoadedPage ?ds]
                   ([], Map.empty, example_duplicates)
              = (Inr (), [''illust:1-0'', ''illust:1-0''], fst (snd (snd ?r)), snd (snd (snd ?r)))"
    unfolding lo using a b by (metis prod.collapse)
  have nd: "\<not> distinct [''illust:1-0'', ''illust:1-0'']" by simp
  have st: "sizingStyle example_duplicates = Some (makeThumbnailSizingStyle example_env)"
    by (simp add: example_duplicates_def example_env_def)
  show ?thesis
    using duplicate_ids_abort [OF d flat nd, of None False] st a b d nd by simp
qed

section \<open>Refreshing twice\<close>



section \<open>Rows\<close>

text \<open>
  Claim C5. \<open>_addThumbToRow\<close> takes the open row at the edge it adds to (the last row,
  or the first one), opening one if there is none, and puts the tile into it. If the
  content of that row, tiles and gaps, is then wider than the row, the tile is taken out
  again, the row is closed, a new open row is made at the same edge and holds just the
  tile. If not, the row keeps the tile and stays open.
\<close>

theorem addThumbToRow_overflow:
  assumes "getOpenRow atEnd v = (i, v1)"
  shows "i < length (rows v1) \<and> i = (if atEnd then length (rows v1) - 1 else 0)
       \<and> dataset_open (rows v1 ! i)
       \<and> (if row_offsetWidth e
               < row_contentWidth sz (children (insert_node atEnd node (rows v1 ! i)))
          then rows (addThumbToRow e sz node atEnd v)
                 = (if atEnd
                    then (rows v1)[i := closeRow e sz (rows v1 ! i)]
                           @ [\<lparr>dataset_open = True, children = [node]\<rparr>]
                    else \<lparr>dataset_open = True, children = [node]\<rparr>
                           # (rows v1)[i := closeRow e sz (rows v1 ! i)])
               \<and> \<not> dataset_open (closeRow e sz (rows v1 ! i))
          else rows (addThumbToRow e sz node atEnd v)
                 = (rows v1)[i := insert_node atEnd node (rows v1 ! i)]
               \<and> dataset_open (insert_node atEnd node (rows v1 ! i)))"
proof -
  note edge = getOpenRow_edge [OF assms]
  have A: "i < length (rows v1)" and B: "i = (if atEnd then length (rows v1) - 1 else 0)"
    and C: "dataset_open (rows v1 ! i)" using edge by blast+
  let ?r = "rows v1 ! i"
  let ?added = "insert_node atEnd node ?r"
  let ?rs2 = "(rows v1)[i := closeRow e sz ?r]"
  have ne2: "?rs2 \<noteq> []" using edge by auto
  have cl: "\<not> dataset_open (if atEnd then last ?rs2 else hd ?rs2)"
    using edge ne2 by (auto simp: last_conv_nth hd_conv_nth closeRow_closed)
  note g2 = getOpenRow_closed_edge [OF ne2 cl, of v1]
  show ?thesis
  proof (cases "row_offsetWidth e < row_contentWidth sz (children ?added)")
    case True
    then have "\<not> row_scrollWidth e sz (children ?added) \<le> row_offsetWidth e"
      by (simp add: scrollWidth_le)
    then have X: "rows (addThumbToRow e sz node atEnd v)
                 = (if atEnd then ?rs2 @ [\<lparr>dataset_open = True, children = [node]\<rparr>]
                    else \<lparr>dataset_open = True, children = [node]\<rparr> # ?rs2)"
      using assms g2
      by (auto simp: addThumbToRow_def Let_def insert_node_def nth_append list_update_append)
    show ?thesis
      apply (intro conjI)
         apply (rule A)
        apply (rule B)
       apply (rule C)
      apply (simp only: True if_True X closeRow_closed simp_thms)
      done
  next
    case False
    then have "row_scrollWidth e sz (children ?added) \<le> row_offsetWidth e"
      by (simp add: scrollWidth_le)
    then have X: "rows (addThumbToRow e sz node atEnd v) = (rows v1)[i := ?added]"
      using assms by (simp add: addThumbToRow_def Let_def)
    have D: "dataset_open ?added" using C by (simp add: insert_node_def)
    show ?thesis
      apply (intro conjI)
         apply (rule A)
        apply (rule B)
       apply (rule C)
      apply (simp only: False if_False X D simp_thms)
      done
  qed
qed

theorem addThumbToRow_overflow_witness:
  "getOpenRow True example_row_view = (0, example_row_view)
   \<and> row_offsetWidth example_env
       < row_contentWidth example_sizing
           (children (insert_node True (example_thumb ''illust:2-2'' False)
                        (rows example_row_view ! 0)))
   \<and> rows (addThumbToRow example_env example_sizing (example_thumb ''illust:2-2'' False) True
             example_row_view)
       = [closeRow example_env example_sizing (rows example_row_view ! 0),
          \<lparr>dataset_open = True, children = [example_thumb ''illust:2-2'' False]\<rparr>]
   \<and> getOpenRow True (example_view (example_source example_ids))
       = (0, (example_view (example_source example_ids))
               \<lparr>rows := [\<lparr>dataset_open = True, children = []\<rparr>]\<rparr>)
   \<and> \<not> row_offsetWidth example_env
         < row_contentWidth example_sizing [example_thumb ''illust:1-0'' False]
   \<and> rows (addThumbToRow example_env example_sizing (example_thumb ''illust:1-0'' False) True
             (example_view (example_source example_ids)))
       = [\<lparr>dataset_open = True, children = [example_thumb ''illust:1-0'' False]\<rparr>]"
proof -
  have g1: "getOpenRow True example_row_view = (0, example_row_view)"
    by (simp add: getOpenRow_def example_row_view_def example_view_def last_elem_def Let_def)
  have w1: "row_offsetWidth example_env
       < row_contentWidth example_sizing
           (children (insert_node True (example_thumb ''illust:2-2'' False)
                        (rows example_row_view ! 0)))"
    by (simp add: row_contentWidth_def insert_node_def example_row_view_def example_env_def
          example_sizing_def example_thumb_def)
  have g2: "getOpenRow True (example_view (example_source example_ids))
       = (0, (example_view (example_source example_ids))
               \<lparr>rows := [\<lparr>dataset_open = True, children = []\<rparr>]\<rparr>)"
    by (simp add: getOpenRow_def example_view_def last_elem_def Let_def)
  have w2: "\<not> row_offsetWidth example_env
         < row_contentWidth example_sizing [example_thumb ''illust:1-0'' False]"
    by (simp add: row_contentWidth_def example_env_def example_sizing_def example_thumb_def)
  show ?thesis
    using addThumbToRow_overflow [OF g1, of example_env example_sizing
            "example_thumb ''illust:2-2'' False"]
          addThumbToRow_overflow [OF g2, of example_env example_sizing
            "example_thumb ''illust:1-0'' False"]
          g1 g2 w1 w2
    by (simp add: insert_node_def example_row_view_def)
qed

text \<open>
  Claim C4 at the scenario of the specification: three tiles of 300 by 300 in a row 1000
  wide with a gap of 10. \<open>_addThumbToRow\<close> puts the three into one row. \<open>_closeRow\<close>
  then gives each tile the width and height \<open>7500 / 23\<close>, about 326.09: the heights are
  equal, but the tiles and the two gaps add up to \<open>22960 / 23\<close>, about 998.26, and not
  to the row width 1000.
\<close>

theorem closeRow_three_squares:
  "rows (addThumbToRow example_env example_sizing (example_thumb ''illust:2-1'' False) True
          (addThumbToRow example_env example_sizing (example_thumb ''illust:2-0'' False) True
             (addThumbToRow example_env example_sizing (example_thumb ''illust:1-0'' False) True
                (example_view (example_source example_ids)))))
     = rows example_row_view
   \<and> closeRow example_env example_sizing (rows example_row_view ! 0)
       = \<lparr>dataset_open = False,
          children =
            [(example_thumb ''illust:1-0'' False)
               \<lparr>offsetWidth := 7500 / 23, offsetHeight := 7500 / 23\<rparr>,
             (example_thumb ''illust:2-0'' False)
               \<lparr>offsetWidth := 7500 / 23, offsetHeight := 7500 / 23\<rparr>,
             (example_thumb ''illust:2-1'' False)
               \<lparr>offsetWidth := 7500 / 23, offsetHeight := 7500 / 23\<rparr>]\<rparr>
   \<and> row_contentWidth example_sizing
        (children (closeRow example_env example_sizing (rows example_row_view ! 0)))
       = 22960 / 23
   \<and> row_contentWidth example_sizing
        (children (closeRow example_env example_sizing (rows example_row_view ! 0)))
       < row_offsetWidth example_env - 1"
proof -
  have a: "rows (addThumbToRow example_env example_sizing (example_thumb ''illust:2-1'' False) True
          (addThumbToRow example_env example_sizing (example_thumb ''illust:2-0'' False) True
             (addThumbToRow example_env example_sizing (example_thumb ''illust:1-0'' False) True
                (example_view (example_source example_ids)))))
     = rows example_row_view"
    by code_simp
  have b: "closeRow example_env example_sizing (rows example_row_view ! 0)
       = \<lparr>dataset_open = False,
          children =
            [(example_thumb ''illust:1-0'' False)
               \<lparr>offsetWidth := 7500 / 23, offsetHeight := 7500 / 23\<rparr>,
             (example_thumb ''illust:2-0'' False)
               \<lparr>offsetWidth := 7500 / 23, offsetHeight := 7500 / 23\<rparr>,
             (example_thumb ''illust:2-1'' False)
               \<lparr>offsetWidth := 7500 / 23, offsetHeight := 7500 / 23\<rparr>]\<rparr>"
    by (simp add: closeRow_def fill_pass_def equalize_pass_def expand_pass_def expand_child_def
        maxHeight_of_def scale_thumb_def example_row_view_def example_env_def
        example_sizing_def example_thumb_def upt_rec [of 0] upt_rec [of 1] upt_rec [of 2]
        upt_rec [of 3] Let_def)
  have c: "row_contentWidth example_sizing
        (children (closeRow example_env example_sizing (rows example_row_view ! 0)))
       = 22960 / 23"
    unfolding b by (simp add: row_contentWidth_def example_sizing_def)
  have d: "(22960 / 23 :: real) < row_offsetWidth example_env - 1"
    by (simp add: example_env_def)
  from a b c d show ?thesis by (simp only: simp_thms)
qed

section \<open>Expansion\<close>

text \<open>
  Claim C8. The flattened list is the list of the source ids with each id replaced by what
  the loop pushes for it. For an id on a loaded page whose post has \<open>n \<ge> 1\<close> pages and
  for which \<open>isMediaIdExpanded\<close> answers true, these are exactly \<open>n\<close> ids: for
  \<open>n > 1\<close> the ids of the pages \<open>0 .. n - 1\<close> in order, for \<open>n = 1\<close> the id itself.
  In the id-to-page map of a flattening that succeeds, each of them has the page number of
  the source id.
\<close>

theorem expansion_flattening:
  assumes ds: "dataSource v = Some ds"
      and ok: "getDataSourceMediaIds e v = (Inr (allMediaIds, mediaIdPages), v')"
      and item: "(page, mediaId) \<in> set (source_items ds)"
      and expanded: "fst (isMediaIdExpanded e mediaId v)"
      and info: "getMediaInfoSync e mediaId False = Some info"
      and n: "1 \<le> pageCount info"
  shows "allMediaIds
           = concat (map (\<lambda>(page, mediaId). flattened_item e v mediaId) (source_items ds))
       \<and> length (flattened_item e v mediaId) = nat (pageCount info)
       \<and> (1 < pageCount info \<longrightarrow>
            flattened_item e v mediaId =
              map (\<lambda>mangaPage. encodeMediaId e
                     (fst (mediaId_parse e mediaId), fst (snd (mediaId_parse e mediaId)), mangaPage))
                  [0 ..< nat (pageCount info)])
       \<and> (pageCount info = 1 \<longrightarrow> flattened_item e v mediaId = [mediaId])
       \<and> (\<forall>x \<in> set (flattened_item e v mediaId). mediaIdPages x = Some page)"
proof -
  note flat = getDataSourceMediaIds_flat [OF ds ok]
  have 1: "allMediaIds
           = concat (map (\<lambda>(page, mediaId). flattened_item e v mediaId) (source_items ds))"
    using flat by (simp add: tagged_items_fst)
  note fi = flattened_item_expanded [OF expanded info]
  have 2: "length (flattened_item e v mediaId) = nat (pageCount info)"
    using n by (auto simp: fi)
  have 5: "\<forall>x \<in> set (flattened_item e v mediaId). mediaIdPages x = Some page"
  proof
    fix x assume "x \<in> set (flattened_item e v mediaId)"
    then have "(x, page) \<in> set (tagged_items e v (source_items ds))"
      by (rule tagged_items_mem [OF item])
    moreover have "distinct (map fst (tagged_items e v (source_items ds)))" using flat by metis
    ultimately show "mediaIdPages x = Some page"
      using flat fold_upd_distinct by metis
  qed
  from 1 2 5 show ?thesis by (simp add: fi)
qed

theorem expansion_flattening_witness:
  "dataSource (example_view (example_source example_ids)) = Some (example_source example_ids)
   \<and> (1, ''illust:2-0'') \<in> set (source_items (example_source example_ids))
   \<and> fst (isMediaIdExpanded example_env ''illust:2-0'' (example_view (example_source example_ids)))
   \<and> getMediaInfoSync example_env ''illust:2-0'' False
       = Some \<lparr>pageCount = 3, info_userId = ''7''\<rparr>
   \<and> (case fst (getDataSourceMediaIds example_env (example_view (example_source example_ids))) of
         Inl err \<Rightarrow> False
       | Inr (allMediaIds, mediaIdPages) \<Rightarrow>
           allMediaIds = [''illust:1-0'', ''illust:2-0'', ''illust:2-1'', ''illust:2-2'',
                          ''illust:3-0'']
           \<and> mediaIdPages ''illust:2-0'' = Some 1 \<and> mediaIdPages ''illust:2-1'' = Some 1
           \<and> mediaIdPages ''illust:2-2'' = Some 1)
   \<and> flattened_item example_env (example_view (example_source example_ids)) ''illust:2-0''
       = [''illust:2-0'', ''illust:2-1'', ''illust:2-2'']"
proof -
  let ?v = "example_view (example_source example_ids)"
  let ?g = "getDataSourceMediaIds example_env ?v"
  have d: "dataSource ?v = Some (example_source example_ids)" by (simp add: example_view_def)
  have i: "(1, ''illust:2-0'') \<in> set (source_items (example_source example_ids))"
    by (simp add: source_items_def page_items_def example_source_def example_ids_def)
  have x: "fst (isMediaIdExpanded example_env ''illust:2-0'' ?v)" by code_simp
  have m: "getMediaInfoSync example_env ''illust:2-0'' False
       = Some \<lparr>pageCount = 3, info_userId = ''7''\<rparr>" by (simp add: example_env_def)
  have a: "map_sum id fst (fst ?g)
       = Inr [''illust:1-0'', ''illust:2-0'', ''illust:2-1'', ''illust:2-2'', ''illust:3-0'']"
    by code_simp
  then obtain mp where r: "fst ?g = Inr ([''illust:1-0'', ''illust:2-0'', ''illust:2-1'',
      ''illust:2-2'', ''illust:3-0''], mp)"
    by (cases "fst ?g") auto
  then have g: "?g = (Inr ([''illust:1-0'', ''illust:2-0'', ''illust:2-1'',
      ''illust:2-2'', ''illust:3-0''], mp), snd ?g)"
    by (metis prod.collapse)
  have n: "1 \<le> pageCount \<lparr>pageCount = 3, info_userId = ''7''\<rparr>" by simp
  have enc: "map (\<lambda>mangaPage. encodeMediaId example_env
                     (fst (mediaId_parse example_env ''illust:2-0''),
                      fst (snd (mediaId_parse example_env ''illust:2-0'')), mangaPage))
                  [0 ..< nat 3] = [''illust:2-0'', ''illust:2-1'', ''illust:2-2'']"
    by code_simp
  show ?thesis
    using expansion_flattening [OF d g i x m n] d i x m r enc by simp
qed

section \<open>The first window\<close>

text \<open>
  Claim C6. With no thumbnail materialized and no target id, \<open>getMediaIdsToDisplay\<close>
  on a list that is not empty returns \<open>(0, k)\<close>: the range starts at \<open>[0, 0]\<close> and grows
  by one index a round. It stops at the first \<open>k\<close> where the number of tiles \<open>k + 1\<close>
  times \<open>desiredPixels\<close> reaches twice the area of the view, or where the range covers all
  ids. For 500 ids and a view of which two screens hold fewer than 500 tiles, \<open>k\<close> is
  below 499: the range is never the whole list.
\<close>

theorem initial_window:
  assumes "thumbs v = []" and "allMediaIds \<noteq> []"
  shows "\<exists>k. getMediaIdsToDisplay e sz v allMediaIds None = (0, k)
           \<and> 0 \<le> k \<and> k < int (length allMediaIds)
           \<and> (k + 1 \<ge> int (length allMediaIds)
                \<or> real_of_int (k + 1) * desiredPixels sz
                     \<ge> containerWidth sz * scroller_offsetHeight e * 2)
           \<and> (\<forall>j. 0 \<le> j \<and> j < k \<longrightarrow>
                  real_of_int (j + 1) * desiredPixels sz
                    < containerWidth sz * scroller_offsetHeight e * 2)
           \<and> (length allMediaIds = 500
                \<and> containerWidth sz * scroller_offsetHeight e * 2 \<le> 499 * desiredPixels sz
                \<longrightarrow> k < 499)"
proof -
  have len: "0 < int (length allMediaIds)" using assms(2) by simp
  have eq: "getMediaIdsToDisplay e sz v allMediaIds None
        = expand_outwards (int (length allMediaIds)) (desiredPixels sz)
            (containerWidth sz * scroller_offsetHeight e * 2) 0 0"
    using assms len by (simp add: getMediaIdsToDisplay_def seed_range_empty)
  obtain k where k: "expand_outwards (int (length allMediaIds)) (desiredPixels sz)
            (containerWidth sz * scroller_offsetHeight e * 2) 0 0 = (0, k)" "0 \<le> k"
      "k < int (length allMediaIds)"
      "k + 1 \<ge> int (length allMediaIds) \<or> real_of_int (k + 1) * desiredPixels sz
                     \<ge> containerWidth sz * scroller_offsetHeight e * 2"
      "\<forall>j. 0 \<le> j \<and> j < k \<longrightarrow> real_of_int (j + 1) * desiredPixels sz
                    < containerWidth sz * scroller_offsetHeight e * 2"
    using expand_outwards_forward [of 0 "int (length allMediaIds)" "desiredPixels sz"
            "containerWidth sz * scroller_offsetHeight e * 2"] len by auto
  have "k < 499" if h: "length allMediaIds = 500"
      "containerWidth sz * scroller_offsetHeight e * 2 \<le> 499 * desiredPixels sz"
  proof (rule ccontr)
    assume "\<not> k < 499"
    then have "0 \<le> (498::int) \<and> 498 < k" by simp
    then have "real_of_int (498 + 1) * desiredPixels sz
                    < containerWidth sz * scroller_offsetHeight e * 2"
      using k(5) by blast
    with h(2) show False by simp
  qed
  with eq k show ?thesis by (intro exI [of _ k]) auto
qed

theorem initial_window_witness:
  "thumbs (example_view (example_source example_many)) = []
   \<and> example_many \<noteq> [] \<and> length example_many = 500
   \<and> containerWidth example_sizing * scroller_offsetHeight example_env * 2
        \<le> 499 * desiredPixels example_sizing
   \<and> getMediaIdsToDisplay example_env example_sizing
        (example_view (example_source example_many)) example_many None = (0, 17)"
proof -
  have len: "length example_many = 500" by (simp add: example_many_def)
  then have ne: "example_many \<noteq> []" by auto
  obtain k where k: "getMediaIdsToDisplay example_env example_sizing
        (example_view (example_source example_many)) example_many None = (0, k)" "0 \<le> k"
      "k + 1 \<ge> 500 \<or> real_of_int (k + 1) * 90000 \<ge> 1600000"
      "\<forall>j. 0 \<le> j \<and> j < k \<longrightarrow> real_of_int (j + 1) * 90000 < (1600000::real)"
      "k < 499"
    using initial_window [where v = "example_view (example_source example_many)"
        and allMediaIds = example_many and sz = example_sizing and e = example_env] ne len
    by (auto simp: example_view_def example_env_def example_sizing_def)
  have "k \<le> 17"
  proof (rule ccontr)
    assume "\<not> k \<le> 17"
    then have "0 \<le> (17::int) \<and> 17 < k" by simp
    then have "real_of_int (17 + 1) * 90000 < (1600000::real)" using k(4) by blast
    then show False by simp
  qed
  moreover have "k \<ge> 17" using k(3,5) by auto
  ultimately have "k = 17" by simp
  with k(1) len ne show ?thesis
    by (simp add: example_view_def example_env_def example_sizing_def)
qed

section \<open>Pagination\<close>

lemma loadDataSourcePage_while_running: "isRunning l \<Longrightarrow> loadDataSourcePage l = l"
  by (simp add: loadDataSourcePage_def)

lemma requested_page_not_loaded:
  assumes "dataSourcePageToLoad v = Inr (Some p)" and "dataSource v = Some ds"
  shows "\<not> isPageLoadedOrLoading ds p"
  using assms by (auto simp: dataSourcePageToLoad_def Let_def split: if_splits)

lemma forward_page_loadable:
  assumes "dataSourcePageToLoad v = Inr (Some p)" and "dataSource v = Some ds"
      and "isPageLoadedOrLoading ds (Page (initialPage ds))"
      and "p \<noteq> page_add (parseInt_searchPage (hd (getLoadedThumbs v))) (-1)"
  shows "canLoadPage ds p \<and> p = page_add (parseInt_searchPage (last (getLoadedThumbs v))) 1"
  using assms by (auto simp: dataSourcePageToLoad_def Let_def split: if_splits)

text \<open>
  Claim C7 at a concrete view: the first thumbnail is nearby and belongs to page 1, the
  last one is not nearby, page 0 is neither loaded nor loading, and the data source
  reports page 0 as not loadable. \<open>_dataSourcePageToLoad\<close> still returns page 0, and
  \<open>loadDataSourcePage\<close> hands it to \<open>dataSource.loadPage\<close>: the backward branch does
  not ask \<open>canLoadPage\<close>, which the forward branch does.
\<close>

theorem backward_load_ignores_canLoadPage:
  "dataSourcePageToLoad
     ((example_view (example_source [''illust:1-0'', ''illust:3-0'']))
        \<lparr>thumbs := [(''illust:1-0'', example_thumb ''illust:1-0'' True),
                    (''illust:3-0'', example_thumb ''illust:3-0'' False)]\<rparr>)
     = Inr (Some (Page 0))
   \<and> \<not> canLoadPage (example_source [''illust:1-0'', ''illust:3-0'']) (Page 0)
   \<and> loadPageCalls (loadDataSourcePage
        \<lparr>loader_view =
           (example_view (example_source [''illust:1-0'', ''illust:3-0'']))
             \<lparr>thumbs := [(''illust:1-0'', example_thumb ''illust:1-0'' True),
                         (''illust:3-0'', example_thumb ''illust:3-0'' False)]\<rparr>,
         isRunning = False, loadPageCalls = []\<rparr>) = [Page 0]"
  by (simp add: dataSourcePageToLoad_def getLoadedThumbs_def loadDataSourcePage_def
        example_view_def example_source_def example_thumb_def parseInt_searchPage_def)

text \<open>
  Claim C10. When the initial page of the data source is already loaded or loading and no
  thumbnail is materialized, \<open>_dataSourcePageToLoad\<close> returns \<open>null\<close>; a call of
  \<open>loadDataSourcePage\<close> then hands no page to \<open>dataSource.loadPage\<close>, whatever the
  state of the runner: an empty view does not scan pages.
\<close>

theorem no_load_without_thumbs:
  assumes "dataSource v = Some ds"
      and "isPageLoadedOrLoading ds (Page (initialPage ds))"
      and "thumbs v = []"
  shows "dataSourcePageToLoad v = Inr None
         \<and> loadPageCalls (loadDataSourcePage \<lparr>loader_view = v, isRunning = r, loadPageCalls = calls\<rparr>) = calls"
  using assms by (simp add: dataSourcePageToLoad_def getLoadedThumbs_def loadDataSourcePage_def)

theorem no_load_without_thumbs_witness:
  "dataSource (example_view (example_source [])) = Some (example_source [])
   \<and> isPageLoadedOrLoading (example_source []) (Page (initialPage (example_source [])))
   \<and> thumbs (example_view (example_source [])) = []
   \<and> dataSourcePageToLoad (example_view (example_source [])) = Inr None
   \<and> loadPageCalls (loadDataSourcePage
        \<lparr>loader_view = example_view (example_source []), isRunning = False,
         loadPageCalls = []\<rparr>) = []"
  using no_load_without_thumbs [of "example_view (example_source [])" "example_source []" False "[]"]
  by (simp add: example_view_def example_source_def)

section \<open>Restoring the scroll position\<close>







end
